theory Spec2Isabelle
  imports Complex_Main
begin

section \<open>JavaScript numbers\<close>

text \<open>
  Every numeric value of the program is a JavaScript \<^verbatim>\<open>number\<close>, an IEEE 754 binary64
  value.  A number is modelled as a finite real, one of the two infinities, or NaN.
  The result of an arithmetic operation on finite operands is the exact real result
  rounded to the nearest binary64 value, ties to even (\<open>fl\<close>), with gradual underflow
  below \<open>2 powi (- 1022)\<close> and overflow to an infinity from \<open>2 ^ 1024\<close> on
  (\<open>round_num\<close>).  The sign of zero is not modelled: the one zero behaves as \<open>+0\<close>.
\<close>

datatype num = Fin real | PInf | NInf | NaN

definition rne :: "real \<Rightarrow> int" where
  "rne x = (let f = \<lfloor>x\<rfloor>; d = x - of_int f in
     if d < 1 / 2 then f else if 1 / 2 < d then f + 1 else if even f then f else f + 1)"

definition expo :: "real \<Rightarrow> int" where
  "expo x = max \<lfloor>log 2 \<bar>x\<bar>\<rfloor> (- 1022)"

definition fl :: "real \<Rightarrow> real" where
  "fl x = (if x = 0 then 0
           else of_int (rne (x * 2 powi (52 - expo x))) * 2 powi (expo x - 52))"

definition round_num :: "real \<Rightarrow> num" where
  "round_num x = (let r = fl x in
     if 2 ^ 1024 \<le> r then PInf else if r \<le> - (2 ^ 1024) then NInf else Fin r)"

text \<open>A finite value that a \<^verbatim>\<open>number\<close> can hold.\<close>

definition is_double :: "real \<Rightarrow> bool" where
  "is_double x = (fl x = x \<and> \<bar>x\<bar> < 2 ^ 1024)"

fun jneg :: "num \<Rightarrow> num" where
  "jneg (Fin a) = Fin (- a)"
| "jneg PInf = NInf"
| "jneg NInf = PInf"
| "jneg NaN = NaN"

fun jadd :: "num \<Rightarrow> num \<Rightarrow> num" where
  "jadd (Fin a) (Fin b) = round_num (a + b)"
| "jadd NaN y = NaN"
| "jadd x NaN = NaN"
| "jadd PInf NInf = NaN"
| "jadd NInf PInf = NaN"
| "jadd PInf y = PInf"
| "jadd x PInf = PInf"
| "jadd NInf y = NInf"
| "jadd x NInf = NInf"

definition jsub :: "num \<Rightarrow> num \<Rightarrow> num" where
  "jsub x y = jadd x (jneg y)"

fun jmul :: "num \<Rightarrow> num \<Rightarrow> num" where
  "jmul (Fin a) (Fin b) = round_num (a * b)"
| "jmul NaN y = NaN"
| "jmul x NaN = NaN"
| "jmul (Fin a) PInf = (if a = 0 then NaN else if 0 < a then PInf else NInf)"
| "jmul (Fin a) NInf = (if a = 0 then NaN else if 0 < a then NInf else PInf)"
| "jmul PInf (Fin b) = (if b = 0 then NaN else if 0 < b then PInf else NInf)"
| "jmul NInf (Fin b) = (if b = 0 then NaN else if 0 < b then NInf else PInf)"
| "jmul PInf PInf = PInf"
| "jmul PInf NInf = NInf"
| "jmul NInf PInf = NInf"
| "jmul NInf NInf = PInf"

fun jdiv :: "num \<Rightarrow> num \<Rightarrow> num" where
  "jdiv (Fin a) (Fin b) =
     (if b = 0 then (if a = 0 then NaN else if 0 < a then PInf else NInf)
      else round_num (a / b))"
| "jdiv NaN y = NaN"
| "jdiv x NaN = NaN"
| "jdiv (Fin a) PInf = Fin 0"
| "jdiv (Fin a) NInf = Fin 0"
| "jdiv PInf (Fin b) = (if 0 \<le> b then PInf else NInf)"
| "jdiv NInf (Fin b) = (if 0 \<le> b then NInf else PInf)"
| "jdiv PInf PInf = NaN"
| "jdiv PInf NInf = NaN"
| "jdiv NInf PInf = NaN"
| "jdiv NInf NInf = NaN"

fun jabs :: "num \<Rightarrow> num" where
  "jabs (Fin a) = Fin \<bar>a\<bar>"
| "jabs PInf = PInf"
| "jabs NInf = PInf"
| "jabs NaN = NaN"

fun jsqrt :: "num \<Rightarrow> num" where
  "jsqrt (Fin a) = (if a < 0 then NaN else round_num (sqrt a))"
| "jsqrt PInf = PInf"
| "jsqrt NInf = NaN"
| "jsqrt NaN = NaN"

text \<open>\<^verbatim>\<open>Math.pow(x, 2)\<close>, taken as the correctly rounded square.\<close>

definition jpow2 :: "num \<Rightarrow> num" where
  "jpow2 x = jmul x x"

text \<open>The comparisons \<^verbatim>\<open>x < y\<close> and \<^verbatim>\<open>x <= y\<close>: false as soon as an operand is NaN.\<close>

fun jlt :: "num \<Rightarrow> num \<Rightarrow> bool" where
  "jlt (Fin a) (Fin b) = (a < b)"
| "jlt NaN y = False"
| "jlt x NaN = False"
| "jlt x NInf = False"
| "jlt PInf y = False"
| "jlt NInf y = True"
| "jlt x PInf = True"

fun jle :: "num \<Rightarrow> num \<Rightarrow> bool" where
  "jle (Fin a) (Fin b) = (a \<le> b)"
| "jle NaN y = False"
| "jle x NaN = False"
| "jle NInf y = True"
| "jle x PInf = True"
| "jle x NInf = False"
| "jle PInf y = False"

definition jgt :: "num \<Rightarrow> num \<Rightarrow> bool" where
  "jgt x y = jlt y x"

definition jge :: "num \<Rightarrow> num \<Rightarrow> bool" where
  "jge x y = jle y x"

text \<open>The equality \<^verbatim>\<open>x == y\<close> on numbers: NaN equals nothing, itself included.\<close>

definition jeq :: "num \<Rightarrow> num \<Rightarrow> bool" where
  "jeq x y = (x = y \<and> x \<noteq> NaN)"

text \<open>An array length or a loop counter used as a number.\<close>

definition num_of_nat :: "nat \<Rightarrow> num" where
  "num_of_nat n = Fin (of_nat n)"


fun jfloor :: "num \<Rightarrow> num" where
  "jfloor (Fin a) = Fin (of_int \<lfloor>a\<rfloor>)"
| "jfloor PInf = PInf"
| "jfloor NInf = NInf"
| "jfloor NaN = NaN"

text \<open>
  The elementary functions of \<^verbatim>\<open>Math\<close>, taken as correctly rounded; an infinite or NaN
  argument gives the value IEEE 754 prescribes.
\<close>

fun jsin :: "num \<Rightarrow> num" where
  "jsin (Fin a) = round_num (sin a)"
| "jsin x = NaN"

fun jcos :: "num \<Rightarrow> num" where
  "jcos (Fin a) = round_num (cos a)"
| "jcos x = NaN"

fun jtan :: "num \<Rightarrow> num" where
  "jtan (Fin a) = round_num (tan a)"
| "jtan x = NaN"

fun jexp :: "num \<Rightarrow> num" where
  "jexp (Fin a) = round_num (exp a)"
| "jexp PInf = PInf"
| "jexp NInf = Fin 0"
| "jexp NaN = NaN"

fun jtanh :: "num \<Rightarrow> num" where
  "jtanh (Fin a) = round_num (tanh a)"
| "jtanh PInf = Fin 1"
| "jtanh NInf = Fin (- 1)"
| "jtanh NaN = NaN"


text \<open>\<^verbatim>\<open>Math.PI\<close>, and a decimal literal of the source: the nearest binary64 value.\<close>

definition js_PI :: num where
  "js_PI = round_num pi"

definition lit :: "real \<Rightarrow> num" where
  "lit x = round_num x"

text \<open>
  \<^verbatim>\<open>x || 0\<close> on a number: 0 and NaN are falsy.  \<^verbatim>\<open>xs[i] || 0\<close> reads \<^verbatim>\<open>undefined\<close>, falsy
  too, past the end of the array.
\<close>

definition or_zero :: "num \<Rightarrow> num" where
  "or_zero x = (if x = NaN \<or> x = Fin 0 then Fin 0 else x)"

definition nth_or_zero :: "num list \<Rightarrow> nat \<Rightarrow> num" where
  "nth_or_zero xs i = (if i < length xs then or_zero (xs ! i) else Fin 0)"




section \<open>Statistical artifact removal\<close>

record ICAResult =
  cleanSignal :: "num list"
  components :: "num list list"
  removedArtifacts :: "num list"
  artifactIndices :: "nat list"

text \<open>\<^verbatim>\<open>signal.reduce((a, b) => a + b, 0) / n\<close>\<close>

definition signal_mean :: "num list \<Rightarrow> num" where
  "signal_mean signal = jdiv (foldl jadd (Fin 0) signal) (num_of_nat (length signal))"

text \<open>\<^verbatim>\<open>Math.sqrt(signal.reduce((sum, v) => sum + Math.pow(v - mean, 2), 0) / n)\<close>\<close>

definition signal_std :: "num list \<Rightarrow> num \<Rightarrow> num" where
  "signal_std signal mean =
     jsqrt (jdiv (foldl (\<lambda>sum v. jadd sum (jpow2 (jsub v mean))) (Fin 0) signal)
                 (num_of_nat (length signal)))"

text \<open>\<^verbatim>\<open>Math.abs(signal[i] - mean) / std\<close>\<close>

definition deviation :: "num list \<Rightarrow> num \<Rightarrow> num \<Rightarrow> nat \<Rightarrow> num" where
  "deviation signal mean std i = jdiv (jabs (jsub (signal ! i) mean)) std"

text \<open>
  One round of the loop over \<open>i\<close>.  The three arrays grow by \<^verbatim>\<open>push\<close>; the removed
  artifact reads \<^verbatim>\<open>cleanSignal[i]\<close>, the element pushed just before.
\<close>

definition simple_step ::
  "num list \<Rightarrow> num \<Rightarrow> num \<Rightarrow> num \<Rightarrow> num list \<times> num list \<times> nat list \<Rightarrow> nat
     \<Rightarrow> num list \<times> num list \<times> nat list" where
  "simple_step signal threshold mean std acc i =
     (case acc of (clean, removed, indices) \<Rightarrow>
        if jgt (deviation signal mean std i) threshold then
          let left = (if 0 < i then signal ! (i - 1) else mean);
              right = (if i < length signal - 1 then signal ! (i + 1) else mean);
              clean' = clean @ [jdiv (jadd left right) (Fin 2)];
              removed' = removed @ [jsub (signal ! i) (clean' ! i)]
          in (clean', removed', indices @ [i])
        else (clean @ [signal ! i], removed @ [Fin 0], indices))"

definition simple_loop ::
  "num list \<Rightarrow> num \<Rightarrow> num \<Rightarrow> num \<Rightarrow> nat \<Rightarrow> num list \<times> num list \<times> nat list" where
  "simple_loop signal threshold mean std k =
     foldl (simple_step signal threshold mean std) ([], [], []) [0..<k]"

definition removeArtifactsSimple :: "num list \<Rightarrow> num \<Rightarrow> ICAResult" where
  "removeArtifactsSimple signal threshold =
     (let mean = signal_mean signal;
          std = signal_std signal mean
      in case simple_loop signal threshold mean std (length signal) of
           (clean, removed, indices) \<Rightarrow>
             \<lparr>cleanSignal = clean, components = [signal],
              removedArtifacts = removed, artifactIndices = indices\<rparr>)"

text \<open>The test of the loop, \<^verbatim>\<open>deviation > threshold\<close>, at sample \<open>i\<close>.\<close>

definition is_artifact :: "num list \<Rightarrow> num \<Rightarrow> nat \<Rightarrow> bool" where
  "is_artifact signal threshold i =
     jgt (deviation signal (signal_mean signal) (signal_std signal (signal_mean signal)) i)
         threshold"

section \<open>Signal generation\<close>

datatype EmotionType = Happy | Neutral | Sad

text \<open>The labels are kept without their leading pictograph.\<close>

record BrainSignal =
  data :: "num list"
  sampleRate :: num
  duration :: num
  emotion :: EmotionType
  label :: string

text \<open>
  An array holds at most \<open>2 ^ 32 - 1\<close> elements: a loop that pushes more does not return
  the array, it ends in a \<^verbatim>\<open>RangeError\<close> (or exhausts the memory before).  Reading a
  property of \<^verbatim>\<open>undefined\<close> ends in a \<^verbatim>\<open>TypeError\<close>.
\<close>

datatype error = RangeError | TypeError

definition ebind :: "error + 'a \<Rightarrow> ('a \<Rightarrow> error + 'b) \<Rightarrow> error + 'b" where
  "ebind m f = (case m of Inl e \<Rightarrow> Inl e | Inr x \<Rightarrow> f x)"

text \<open>The number of rounds of \<^verbatim>\<open>for (let i = 0; i < samples; i++)\<close>.\<close>

definition loop_count :: "num \<Rightarrow> nat" where
  "loop_count samples = (case samples of Fin r \<Rightarrow> nat \<lceil>r\<rceil> | PInf \<Rightarrow> 0 | NInf \<Rightarrow> 0 | NaN \<Rightarrow> 0)"

definition generateSineWave :: "num \<Rightarrow> num \<Rightarrow> num \<Rightarrow> num \<Rightarrow> num \<Rightarrow> error + num list" where
  "generateSineWave frequency amplitude dur rate phase =
     (let samples = jfloor (jmul dur rate) in
      if jgt samples (Fin (2 ^ 32 - 1)) then Inl RangeError
      else Inr (map (\<lambda>i. let t = jdiv (num_of_nat i) rate in
                          jmul amplitude
                            (jsin (jadd (jmul (jmul (jmul (Fin 2) js_PI) frequency) t) phase)))
                  [0..<loop_count samples]))"

text \<open>
  \<^verbatim>\<open>Math.random()\<close> is a parameter: \<open>rnd i\<close> is the value of the \<open>i\<close>-th call, a number in
  \<open>[0, 1)\<close>.
\<close>

definition generateNoise :: "(nat \<Rightarrow> num) \<Rightarrow> nat \<Rightarrow> num \<Rightarrow> num list" where
  "generateNoise rnd len amplitude =
     map (\<lambda>i. jmul (jmul (jsub (rnd i) (lit 0.5)) (Fin 2)) amplitude) [0..<len]"

definition generatePowerLineNoise :: "num \<Rightarrow> num \<Rightarrow> num \<Rightarrow> num \<Rightarrow> error + num list" where
  "generatePowerLineNoise dur rate frequency amplitude =
     generateSineWave frequency amplitude dur rate (Fin 0)"

text \<open>
  \<^verbatim>\<open>addSignals(...signals)\<close>: an array of zeros as long as the longest signal, to which
  each signal is added in turn.
\<close>

definition addSignals :: "num list list \<Rightarrow> num list" where
  "addSignals signals =
     foldl (\<lambda>result signal.
              map (\<lambda>i. if i < length signal then jadd (result ! i) (signal ! i) else result ! i)
                [0..<length result])
       (replicate (foldr max (map length signals) 0) (Fin 0)) signals"

definition generateAlphaWaves :: "num \<Rightarrow> num \<Rightarrow> error + num list" where
  "generateAlphaWaves dur rate =
     ebind (generateSineWave (Fin 10) (lit 0.8) dur rate (Fin 0)) (\<lambda>alpha1.
     ebind (generateSineWave (Fin 11) (lit 0.4) dur rate (jdiv js_PI (Fin 4))) (\<lambda>alpha2.
     Inr (addSignals [alpha1, alpha2])))"

definition generateBetaWaves :: "num \<Rightarrow> num \<Rightarrow> error + num list" where
  "generateBetaWaves dur rate =
     ebind (generateSineWave (Fin 18) (lit 0.5) dur rate (Fin 0)) (\<lambda>beta1.
     ebind (generateSineWave (Fin 22) (lit 0.3) dur rate (jdiv js_PI (Fin 3))) (\<lambda>beta2.
     ebind (generateSineWave (Fin 26) (lit 0.2) dur rate (jdiv js_PI (Fin 6))) (\<lambda>beta3.
     Inr (addSignals [beta1, beta2, beta3]))))"

definition generateThetaWaves :: "num \<Rightarrow> num \<Rightarrow> error + num list" where
  "generateThetaWaves dur rate =
     ebind (generateSineWave (Fin 5) (lit 0.6) dur rate (Fin 0)) (\<lambda>theta1.
     ebind (generateSineWave (Fin 7) (lit 0.4) dur rate (jdiv js_PI (Fin 5))) (\<lambda>theta2.
     Inr (addSignals [theta1, theta2])))"

definition generateDeltaWaves :: "num \<Rightarrow> num \<Rightarrow> error + num list" where
  "generateDeltaWaves dur rate =
     ebind (generateSineWave (Fin 1) (lit 1.0) dur rate (Fin 0)) (\<lambda>delta1.
     ebind (generateSineWave (lit 2.5) (lit 0.5) dur rate (jdiv js_PI (Fin 4))) (\<lambda>delta2.
     Inr (addSignals [delta1, delta2])))"

definition generateGammaWaves :: "num \<Rightarrow> num \<Rightarrow> error + num list" where
  "generateGammaWaves dur rate =
     ebind (generateSineWave (Fin 40) (lit 0.2) dur rate (Fin 0)) (\<lambda>gamma1.
     ebind (generateSineWave (Fin 50) (lit 0.1) dur rate (jdiv js_PI (Fin 2))) (\<lambda>gamma2.
     Inr (addSignals [gamma1, gamma2])))"

definition generateHappySignal :: "(nat \<Rightarrow> num) \<Rightarrow> num \<Rightarrow> num \<Rightarrow> error + BrainSignal" where
  "generateHappySignal rnd dur rate =
     ebind (generateAlphaWaves dur rate) (\<lambda>alpha.
     ebind (generateBetaWaves dur rate) (\<lambda>beta.
     ebind (generateGammaWaves dur rate) (\<lambda>gamma.
     let noise = generateNoise rnd (length alpha) (lit 0.2) in
     ebind (generatePowerLineNoise dur rate (Fin 50) (lit 0.25)) (\<lambda>powerNoise.
     Inr \<lparr>data = map (\<lambda>i.
                 jadd (jadd (jadd (jadd (jmul (alpha ! i) (lit 1.2))
                                        (jmul (nth_or_zero beta i) (lit 0.6)))
                                  (jmul (nth_or_zero gamma i) (lit 0.3)))
                            (noise ! i))
                      (nth_or_zero powerNoise i))
               [0..<length alpha],
          sampleRate = rate, duration = dur, emotion = Happy,
          label = ''Happy Brain Signal''\<rparr>))))"

definition generateNeutralSignal :: "(nat \<Rightarrow> num) \<Rightarrow> num \<Rightarrow> num \<Rightarrow> error + BrainSignal" where
  "generateNeutralSignal rnd dur rate =
     ebind (generateAlphaWaves dur rate) (\<lambda>alpha.
     ebind (generateBetaWaves dur rate) (\<lambda>beta.
     ebind (generateThetaWaves dur rate) (\<lambda>theta.
     let noise = generateNoise rnd (length alpha) (lit 0.15) in
     ebind (generatePowerLineNoise dur rate (Fin 50) (lit 0.2)) (\<lambda>powerNoise.
     Inr \<lparr>data = map (\<lambda>i.
                 jadd (jadd (jadd (jadd (jmul (alpha ! i) (lit 0.8))
                                        (jmul (nth_or_zero beta i) (lit 0.5)))
                                  (jmul (nth_or_zero theta i) (lit 0.3)))
                            (noise ! i))
                      (nth_or_zero powerNoise i))
               [0..<length alpha],
          sampleRate = rate, duration = dur, emotion = Neutral,
          label = ''Neutral Brain Signal''\<rparr>))))"

definition generateSadSignal :: "(nat \<Rightarrow> num) \<Rightarrow> num \<Rightarrow> num \<Rightarrow> error + BrainSignal" where
  "generateSadSignal rnd dur rate =
     ebind (generateAlphaWaves dur rate) (\<lambda>alpha.
     ebind (generateThetaWaves dur rate) (\<lambda>theta.
     ebind (generateDeltaWaves dur rate) (\<lambda>delta.
     let noise = generateNoise rnd (length alpha) (lit 0.2) in
     ebind (generatePowerLineNoise dur rate (Fin 50) (lit 0.3)) (\<lambda>powerNoise.
     Inr \<lparr>data = map (\<lambda>i.
                 jadd (jadd (jadd (jadd (jmul (alpha ! i) (lit 0.4))
                                        (jmul (nth_or_zero theta i) (lit 1.2)))
                                  (jmul (nth_or_zero delta i) (lit 0.8)))
                            (noise ! i))
                      (nth_or_zero powerNoise i))
               [0..<length alpha],
          sampleRate = rate, duration = dur, emotion = Sad,
          label = ''Sad Brain Signal''\<rparr>))))"

text \<open>
  The five weights of \<^verbatim>\<open>CustomSignalParams\<close> are the fields \<open>w_alpha\<close> to \<open>w_gamma\<close>;
  \<^verbatim>\<open>powerNoiseFreq\<close> is 50 or 60.
\<close>

datatype PowerNoiseFreq = Hz50 | Hz60

fun freq_num :: "PowerNoiseFreq \<Rightarrow> num" where
  "freq_num Hz50 = Fin 50"
| "freq_num Hz60 = Fin 60"

record CustomSignalParams =
  w_alpha :: num
  w_beta :: num
  w_theta :: num
  w_delta :: num
  w_gamma :: num
  noiseLevel :: num
  powerNoiseFreq :: PowerNoiseFreq
  powerNoiseLevel :: num

text \<open>The label of a custom signal, from its weights.\<close>

definition custom_emotion :: "CustomSignalParams \<Rightarrow> EmotionType" where
  "custom_emotion params =
     (if jgt (w_alpha params) (lit 0.8) \<and> jgt (w_gamma params) (lit 0.2) then Happy
      else if jgt (w_theta params) (lit 0.8) \<or> jgt (w_delta params) (lit 0.6) then Sad
      else Neutral)"

definition generateCustomSignal ::
  "CustomSignalParams \<Rightarrow> (nat \<Rightarrow> num) \<Rightarrow> num \<Rightarrow> num \<Rightarrow> error + BrainSignal" where
  "generateCustomSignal params rnd dur rate =
     ebind (generateAlphaWaves dur rate) (\<lambda>alpha.
     ebind (generateBetaWaves dur rate) (\<lambda>beta.
     ebind (generateThetaWaves dur rate) (\<lambda>theta.
     ebind (generateDeltaWaves dur rate) (\<lambda>delta.
     ebind (generateGammaWaves dur rate) (\<lambda>gamma.
     let noise = generateNoise rnd (length alpha) (noiseLevel params) in
     ebind (generatePowerLineNoise dur rate (freq_num (powerNoiseFreq params))
              (powerNoiseLevel params)) (\<lambda>powerNoise.
     Inr \<lparr>data = map (\<lambda>i.
                 jadd (jadd (jadd (jadd (jadd (jadd (jmul (alpha ! i) (w_alpha params))
                                                    (jmul (nth_or_zero beta i) (w_beta params)))
                                              (jmul (nth_or_zero theta i) (w_theta params)))
                                        (jmul (nth_or_zero delta i) (w_delta params)))
                                  (jmul (nth_or_zero gamma i) (w_gamma params)))
                            (noise ! i))
                      (nth_or_zero powerNoise i))
               [0..<length alpha],
          sampleRate = rate, duration = dur, emotion = custom_emotion params,
          label = ''Custom Signal''\<rparr>))))))"

text \<open>Parameters of a custom signal, for the examples below.\<close>

definition example_params :: CustomSignalParams where
  "example_params = \<lparr>w_alpha = Fin 1, w_beta = Fin (1 / 2), w_theta = Fin 0, w_delta = Fin 0,
     w_gamma = Fin (1 / 2), noiseLevel = Fin 0, powerNoiseFreq = Hz50, powerNoiseLevel = Fin 0\<rparr>"

section \<open>Filters\<close>

text \<open>The coefficients \<open>(b, a)\<close> of the second order low-pass Butterworth filter.\<close>

definition butterworthCoeffs :: "num \<Rightarrow> num \<Rightarrow> num list \<times> num list" where
  "butterworthCoeffs cutoffFreq rate =
     (let wc = jtan (jdiv (jmul js_PI cutoffFreq) rate);
          wc2 = jmul wc wc;
          sqrt2 = jsqrt (Fin 2);
          k = jadd (jadd (Fin 1) (jmul sqrt2 wc)) wc2;
          b0 = jdiv wc2 k;
          b1 = jdiv (jmul (Fin 2) wc2) k;
          b2 = jdiv wc2 k;
          a1 = jdiv (jmul (Fin 2) (jsub wc2 (Fin 1))) k;
          a2 = jdiv (jadd (jsub (Fin 1) (jmul sqrt2 wc)) wc2) k
      in ([b0, b1, b2], [Fin 1, a1, a2]))"

text \<open>
  One round of the outer loop of \<^verbatim>\<open>applyIIRFilter\<close>: the feed-forward sum over \<open>b\<close>, the
  feedback sum over \<open>a\<close> from index 1, both only where \<^verbatim>\<open>i - j >= 0\<close>, then
  \<^verbatim>\<open>output[i] = sum\<close>.
\<close>

definition iir_step :: "num list \<Rightarrow> num list \<Rightarrow> num list \<Rightarrow> num list \<Rightarrow> nat \<Rightarrow> num list" where
  "iir_step signal b a output i =
     (let fwd = foldl (\<lambda>sum j. if j \<le> i then jadd sum (jmul (b ! j) (signal ! (i - j))) else sum)
                  (Fin 0) [0..<length b];
          sum = foldl (\<lambda>sum j. if j \<le> i then jsub sum (jmul (a ! j) (output ! (i - j))) else sum)
                  fwd [1..<length a]
      in output[i := sum])"

definition applyIIRFilter :: "num list \<Rightarrow> num list \<Rightarrow> num list \<Rightarrow> num list" where
  "applyIIRFilter signal b a =
     foldl (iir_step signal b a) (replicate (length signal) (Fin 0)) [0..<length signal]"

definition filtfilt :: "num list \<Rightarrow> num list \<Rightarrow> num list \<Rightarrow> num list" where
  "filtfilt signal b a = rev (applyIIRFilter (rev (applyIIRFilter signal b a)) b a)"

definition lowPassFilter :: "num list \<Rightarrow> num \<Rightarrow> num \<Rightarrow> num list" where
  "lowPassFilter signal cutoffFreq rate =
     (case butterworthCoeffs cutoffFreq rate of (b, a) \<Rightarrow> filtfilt signal b a)"

definition highPassFilter :: "num list \<Rightarrow> num \<Rightarrow> num \<Rightarrow> num list" where
  "highPassFilter signal cutoffFreq rate =
     (let lowPassed = lowPassFilter signal cutoffFreq rate
      in map (\<lambda>i. jsub (signal ! i) (lowPassed ! i)) [0..<length signal])"

definition bandPassFilter :: "num list \<Rightarrow> num \<Rightarrow> num \<Rightarrow> num \<Rightarrow> num list" where
  "bandPassFilter signal lowFreq highFreq rate =
     (let highPassed = highPassFilter signal lowFreq rate;
          bandPassed = lowPassFilter highPassed highFreq rate
      in bandPassed)"

definition notchFilter :: "num list \<Rightarrow> num \<Rightarrow> num \<Rightarrow> num \<Rightarrow> num list" where
  "notchFilter signal notchFreq rate bandwidth =
     (let w0 = jdiv (jmul (jmul (Fin 2) js_PI) notchFreq) rate;
          Q = jdiv notchFreq bandwidth;
          alpha = jdiv (jsin w0) (jmul (Fin 2) Q);
          b0 = Fin 1;
          b1 = jmul (Fin (- 2)) (jcos w0);
          b2 = Fin 1;
          a0 = jadd (Fin 1) alpha;
          a1 = jmul (Fin (- 2)) (jcos w0);
          a2 = jsub (Fin 1) alpha
      in filtfilt signal [jdiv b0 a0, jdiv b1 a0, jdiv b2 a0] [Fin 1, jdiv a1 a0, jdiv a2 a0])"

text \<open>The two arrays \<open>(b, a)\<close> that \<^verbatim>\<open>notchFilter\<close> computes and hands to \<^verbatim>\<open>filtfilt\<close>.\<close>

definition notchCoeffs :: "num \<Rightarrow> num \<Rightarrow> num \<Rightarrow> num list \<times> num list" where
  "notchCoeffs notchFreq rate bandwidth =
     (let w0 = jdiv (jmul (jmul (Fin 2) js_PI) notchFreq) rate;
          Q = jdiv notchFreq bandwidth;
          alpha = jdiv (jsin w0) (jmul (Fin 2) Q);
          b0 = Fin 1;
          b1 = jmul (Fin (- 2)) (jcos w0);
          b2 = Fin 1;
          a0 = jadd (Fin 1) alpha;
          a1 = jmul (Fin (- 2)) (jcos w0);
          a2 = jsub (Fin 1) alpha
      in ([jdiv b0 a0, jdiv b1 a0, jdiv b2 a0], [Fin 1, jdiv a1 a0, jdiv a2 a0]))"



text \<open>
  The filters have no notion of an unstable filter.  For the claim that speaks of one:
  a second order denominator \<open>[1, a1, a2]\<close> has both poles strictly inside the unit circle
  exactly when \<open>\<bar>a2\<bar> < 1\<close> and \<open>\<bar>a1\<bar> < 1 + a2\<close>.
\<close>

definition poles_inside_unit_circle :: "num list \<Rightarrow> bool" where
  "poles_inside_unit_circle a =
     (case a of
        [Fin a0, Fin a1, Fin a2] \<Rightarrow> a0 = 1 \<and> \<bar>a2\<bar> < 1 \<and> \<bar>a1\<bar> < 1 + a2
      | _ \<Rightarrow> False)"

section \<open>Spectrum and band powers\<close>

text \<open>
  The two sums of the inner loop of \<^verbatim>\<open>computeFFT\<close> for the bin \<open>k\<close>, as the pair
  \<open>(real, imag)\<close>.
\<close>

definition dft_sums :: "num list \<Rightarrow> nat \<Rightarrow> num \<times> num" where
  "dft_sums signal k =
     foldl (\<lambda>(re, im) t.
              let angle = jdiv (jmul (jmul (jmul (Fin 2) js_PI) (num_of_nat k)) (num_of_nat t))
                               (num_of_nat (length signal))
              in (jadd re (jmul (signal ! t) (jcos angle)),
                  jsub im (jmul (signal ! t) (jsin angle))))
       (Fin 0, Fin 0) [0..<length signal]"

definition dft_magnitude :: "num list \<Rightarrow> nat \<Rightarrow> num" where
  "dft_magnitude signal k =
     (case dft_sums signal k of (re, im) \<Rightarrow>
        jdiv (jsqrt (jadd (jmul re re) (jmul im im))) (num_of_nat (length signal)))"

text \<open>The result of \<^verbatim>\<open>computeFFT\<close> is the pair \<open>(frequencies, magnitudes)\<close>.\<close>

definition computeFFT :: "num list \<Rightarrow> num \<Rightarrow> num list \<times> num list" where
  "computeFFT signal rate =
     (let n = length signal;
          numFreqs = n div 2
      in (map (\<lambda>k. jdiv (jmul (num_of_nat k) rate) (num_of_nat n)) [0..<numFreqs],
          map (\<lambda>k. dft_magnitude signal k) [0..<numFreqs]))"

record BandPowers =
  delta :: num
  theta :: num
  alpha :: num
  beta :: num
  gamma :: num

text \<open>The ten variables of the loop of \<^verbatim>\<open>calculateBandPowers\<close>: a sum and a count per band.\<close>

record BandSums =
  deltaSum :: num
  thetaSum :: num
  alphaSum :: num
  betaSum :: num
  gammaSum :: num
  deltaCount :: nat
  thetaCount :: nat
  alphaCount :: nat
  betaCount :: nat
  gammaCount :: nat

definition band_step :: "num list \<Rightarrow> num list \<Rightarrow> BandSums \<Rightarrow> nat \<Rightarrow> BandSums" where
  "band_step frequencies magnitudes s i =
     (let freq = frequencies ! i;
          power = jmul (magnitudes ! i) (magnitudes ! i)
      in if jge freq (lit 0.5) \<and> jlt freq (Fin 4) then
           s\<lparr>deltaSum := jadd (deltaSum s) power, deltaCount := deltaCount s + 1\<rparr>
         else if jge freq (Fin 4) \<and> jlt freq (Fin 8) then
           s\<lparr>thetaSum := jadd (thetaSum s) power, thetaCount := thetaCount s + 1\<rparr>
         else if jge freq (Fin 8) \<and> jlt freq (Fin 13) then
           s\<lparr>alphaSum := jadd (alphaSum s) power, alphaCount := alphaCount s + 1\<rparr>
         else if jge freq (Fin 13) \<and> jlt freq (Fin 30) then
           s\<lparr>betaSum := jadd (betaSum s) power, betaCount := betaCount s + 1\<rparr>
         else if jge freq (Fin 30) \<and> jle freq (Fin 45) then
           s\<lparr>gammaSum := jadd (gammaSum s) power, gammaCount := gammaCount s + 1\<rparr>
         else s)"

definition band_sums :: "num list \<Rightarrow> num list \<Rightarrow> nat \<Rightarrow> BandSums" where
  "band_sums frequencies magnitudes m =
     foldl (band_step frequencies magnitudes)
       \<lparr>deltaSum = Fin 0, thetaSum = Fin 0, alphaSum = Fin 0, betaSum = Fin 0, gammaSum = Fin 0,
        deltaCount = 0, thetaCount = 0, alphaCount = 0, betaCount = 0, gammaCount = 0\<rparr>
       [0..<m]"

definition calculateBandPowers :: "num list \<Rightarrow> num \<Rightarrow> BandPowers" where
  "calculateBandPowers signal rate =
     (case computeFFT signal rate of (frequencies, magnitudes) \<Rightarrow>
        let s = band_sums frequencies magnitudes (length frequencies)
        in \<lparr>delta = (if 0 < deltaCount s then jdiv (deltaSum s) (num_of_nat (deltaCount s)) else Fin 0),
            theta = (if 0 < thetaCount s then jdiv (thetaSum s) (num_of_nat (thetaCount s)) else Fin 0),
            alpha = (if 0 < alphaCount s then jdiv (alphaSum s) (num_of_nat (alphaCount s)) else Fin 0),
            beta = (if 0 < betaCount s then jdiv (betaSum s) (num_of_nat (betaCount s)) else Fin 0),
            gamma = (if 0 < gammaCount s then jdiv (gammaSum s) (num_of_nat (gammaCount s)) else Fin 0)\<rparr>)"

text \<open>
  The band power in the words of the specification: the mean, over the bins whose
  frequency lies in the band, of the squared magnitudes, and 0 when no bin does.  The
  bins are summed in the order of their index.
\<close>

definition spec_band_power :: "(num \<Rightarrow> bool) \<Rightarrow> num list \<Rightarrow> num list \<Rightarrow> num" where
  "spec_band_power in_band frequencies magnitudes =
     (let bins = filter (\<lambda>i. in_band (frequencies ! i)) [0..<length frequencies]
      in if bins = [] then Fin 0
         else jdiv (foldl jadd (Fin 0) (map (\<lambda>i. jmul (magnitudes ! i) (magnitudes ! i)) bins))
                   (num_of_nat (length bins)))"

text \<open>
  The transform in the words of the specification.  For a signal \<open>x\<close> of \<open>n\<close> samples the
  bin \<open>k\<close> of the discrete Fourier transform is the sum over \<open>t < n\<close> of
  \<open>x\<^sub>t * exp (- 2 * pi * \<i> * k * t / n)\<close>: its real part is the sum of
  \<open>x\<^sub>t * cos (2 * pi * k * t / n)\<close>, its imaginary part the negated sum of
  \<open>x\<^sub>t * sin (2 * pi * k * t / n)\<close>.  The magnitude normalised by \<open>n\<close> is the modulus
  divided by \<open>n\<close>; the spectrum holds the bins \<open>k < \<lfloor>n / 2\<rfloor>\<close>, the bin \<open>k\<close> at the frequency
  \<open>k * rate / n\<close>.  Sums are taken in the order of the index, every operation in binary64.
\<close>

definition spec_angle :: "nat \<Rightarrow> nat \<Rightarrow> nat \<Rightarrow> num" where
  "spec_angle n k t =
     jdiv (jmul (jmul (jmul (Fin 2) js_PI) (num_of_nat k)) (num_of_nat t)) (num_of_nat n)"

definition spec_sum :: "(nat \<Rightarrow> num) \<Rightarrow> nat \<Rightarrow> num" where
  "spec_sum f n = foldl jadd (Fin 0) (map f [0..<n])"

definition spec_dft :: "num list \<Rightarrow> nat \<Rightarrow> num \<times> num" where
  "spec_dft x k =
     (spec_sum (\<lambda>t. jmul (x ! t) (jcos (spec_angle (length x) k t))) (length x),
      jneg (spec_sum (\<lambda>t. jmul (x ! t) (jsin (spec_angle (length x) k t))) (length x)))"

definition spec_magnitude :: "num list \<Rightarrow> nat \<Rightarrow> num" where
  "spec_magnitude x k =
     (case spec_dft x k of (re, im) \<Rightarrow>
        jdiv (jsqrt (jadd (jmul re re) (jmul im im))) (num_of_nat (length x)))"

definition spec_frequencies :: "num list \<Rightarrow> num \<Rightarrow> num list" where
  "spec_frequencies x rate =
     map (\<lambda>k. jdiv (jmul (num_of_nat k) rate) (num_of_nat (length x))) [0..<length x div 2]"

definition spec_magnitudes :: "num list \<Rightarrow> num list" where
  "spec_magnitudes x = map (spec_magnitude x) [0..<length x div 2]"

text \<open>
  The discrete Fourier transform itself, over the real and complex numbers with no
  rounding: the bin \<open>k\<close> of a signal \<open>x\<close> of \<open>n\<close> samples.
\<close>

definition dft :: "real list \<Rightarrow> nat \<Rightarrow> complex" where
  "dft x k =
     (\<Sum>t<length x. of_real (x ! t) * cis (- (2 * pi * real k * real t / real (length x))))"

section \<open>Rule-based classification\<close>

text \<open>
  \<^verbatim>\<open>EmotionPrediction\<close>: its field \<^verbatim>\<open>emotion\<close> is \<open>predicted\<close> here, the name \<open>emotion\<close>
  being the field of a \<open>BrainSignal\<close>.
\<close>

record Probabilities =
  happy :: num
  neutral :: num
  sad :: num

record EmotionPrediction =
  predicted :: EmotionType
  confidence :: num
  probabilities :: Probabilities

definition ruleBasedClassification :: "num list \<Rightarrow> num \<Rightarrow> EmotionPrediction" where
  "ruleBasedClassification signal rate =
     (let bandPowers = calculateBandPowers signal rate;
          total = jadd (jadd (jadd (jadd (delta bandPowers) (theta bandPowers)) (alpha bandPowers))
                             (beta bandPowers)) (gamma bandPowers);
          n_delta = jdiv (delta bandPowers) total;
          n_theta = jdiv (theta bandPowers) total;
          n_alpha = jdiv (alpha bandPowers) total;
          n_beta = jdiv (beta bandPowers) total;
          n_gamma = jdiv (gamma bandPowers) total;
          happyScore = jadd (jadd (jmul n_alpha (lit 1.5)) (jmul n_beta (lit 0.8)))
                            (jmul n_gamma (lit 1.2));
          neutralScore = jadd (jadd (jmul n_alpha (lit 1.0)) (jmul n_beta (lit 1.0)))
                              (jmul n_theta (lit 0.5));
          sadScore = jsub (jadd (jmul n_theta (lit 1.5)) (jmul n_delta (lit 1.2)))
                          (jmul n_alpha (lit 0.5));
          expHappy = jexp happyScore;
          expNeutral = jexp neutralScore;
          expSad = jexp (jmul sadScore (lit 0.8));
          expSum = jadd (jadd expHappy expNeutral) expSad;
          p = \<lparr>happy = jdiv expHappy expSum, neutral = jdiv expNeutral expSum,
               sad = jdiv expSad expSum\<rparr>;
          emotion0 = Neutral;
          maxProb0 = neutral p;
          emotion1 = (if jgt (happy p) maxProb0 then Happy else emotion0);
          maxProb1 = (if jgt (happy p) maxProb0 then happy p else maxProb0);
          emotion2 = (if jgt (sad p) maxProb1 then Sad else emotion1);
          maxProb2 = (if jgt (sad p) maxProb1 then sad p else maxProb1)
      in \<lparr>predicted = emotion2, confidence = maxProb2, probabilities = p\<rparr>)"

text \<open>
  \<^verbatim>\<open>predictEmotion\<close> with no trained model (the module's \<^verbatim>\<open>model\<close> is \<^verbatim>\<open>null\<close> until
  \<^verbatim>\<open>trainModel\<close> has run) returns the rule-based classification.
\<close>

definition predictEmotion_untrained :: "num list \<Rightarrow> num \<Rightarrow> EmotionPrediction" where
  "predictEmotion_untrained signal rate = ruleBasedClassification signal rate"

section \<open>Artifact removal by independent component analysis\<close>









definition g :: "num \<Rightarrow> num" where
  "g u = jtanh u"













section \<open>Rounding to binary64\<close>

lemma rne_of_int: "rne (of_int k) = k"
  by (simp add: rne_def)

lemma rne_error: "\<bar>of_int (rne y) - y\<bar> \<le> 1 / 2"
proof -
  have "of_int \<lfloor>y\<rfloor> \<le> y" "y < of_int \<lfloor>y\<rfloor> + 1" by linarith+
  then show ?thesis by (auto simp: rne_def Let_def)
qed

lemma expo_ge: "- 1022 \<le> expo x"
  by (simp add: expo_def)

lemma expo_eq:
  assumes "2 powi e \<le> \<bar>x\<bar>" "\<bar>x\<bar> < 2 powi (e + 1)" "- 1022 \<le> e"
  shows "expo x = e"
proof -
  have pos: "0 < \<bar>x\<bar>" using assms(1) by (smt (verit) zero_less_power_int)
  have "2 powr (real_of_int e + 1) = 2 powi (e + 1)"
    using powr_real_of_int'[of 2 "e + 1"] by simp
  then have "\<lfloor>log 2 \<bar>x\<bar>\<rfloor> = e"
    using assms pos by (simp add: floor_log_eq_powr_iff powr_real_of_int')
  then show ?thesis using assms(3) by (simp add: expo_def)
qed

lemma expo_bounds:
  assumes "x \<noteq> 0"
  shows "\<bar>x\<bar> < 2 powi (expo x + 1)"
    and "expo x \<noteq> - 1022 \<Longrightarrow> 2 powi expo x \<le> \<bar>x\<bar>"
proof -
  let ?l = "\<lfloor>log 2 \<bar>x\<bar>\<rfloor>"
  have pos: "0 < \<bar>x\<bar>" using assms by simp
  have "\<lfloor>log 2 \<bar>x\<bar>\<rfloor> = ?l" by simp
  then have b: "2 powr (of_int ?l) \<le> \<bar>x\<bar>" "\<bar>x\<bar> < 2 powr (of_int (?l + 1))"
    using pos floor_log_eq_powr_iff[of "\<bar>x\<bar>" 2 ?l] by auto
  have pw: "\<And>k::int. 2 powr (of_int k) = (2::real) powi k"
    by (simp add: powr_real_of_int')
  have le: "?l \<le> expo x" by (simp add: expo_def)
  have "\<bar>x\<bar> < 2 powi (?l + 1)" using b(2) pw by metis
  also have "\<dots> \<le> 2 powi (expo x + 1)"
    using le by (intro power_int_increasing) auto
  finally show "\<bar>x\<bar> < 2 powi (expo x + 1)" .
  assume "expo x \<noteq> - 1022"
  then have "expo x = ?l" by (auto simp: expo_def max_def split: if_splits)
  then show "2 powi expo x \<le> \<bar>x\<bar>" using b(1) pw by metis
qed

lemma fl_0: "fl 0 = 0"
  by (simp add: fl_def)

lemma fl_eval:
  assumes "2 powi e \<le> \<bar>x\<bar>" "\<bar>x\<bar> < 2 powi (e + 1)" "- 1022 \<le> e"
  shows "fl x = of_int (rne (x * 2 powi (52 - e))) * 2 powi (e - 52)"
proof -
  have "x \<noteq> 0" using assms(1) by (smt (verit) zero_less_power_int)
  then show ?thesis by (simp add: fl_def expo_eq[OF assms])
qed

lemma fl_error_expo: "\<bar>fl x - x\<bar> \<le> 2 powi (expo x - 53)"
proof (cases "x = 0")
  case True
  then show ?thesis by (simp add: fl_def)
next
  case False
  let ?e = "expo x"
  let ?y = "x * 2 powi (52 - ?e)"
  have x: "x = ?y * 2 powi (?e - 52)"
    by (simp add: power_int_diff)
  have "fl x - x = (of_int (rne ?y) - ?y) * 2 powi (?e - 52)"
    using False by (simp add: fl_def algebra_simps power_int_diff)
  then have "\<bar>fl x - x\<bar> = \<bar>of_int (rne ?y) - ?y\<bar> * 2 powi (?e - 52)"
    by (simp add: abs_mult)
  also have "\<dots> \<le> (1 / 2) * 2 powi (?e - 52)"
    using rne_error[of ?y] by (intro mult_right_mono) auto
  also have "\<dots> = 2 powi (?e - 53)"
    by (simp add: power_int_diff)
  finally show ?thesis .
qed

lemma fl_error: "\<bar>fl x - x\<bar> \<le> \<bar>x\<bar> / 2 ^ 53 + 2 powi (- 1075)"
proof (cases "x = 0")
  case True
  then show ?thesis by (simp add: fl_def)
next
  case False
  show ?thesis
  proof (cases "expo x = - 1022")
    case True
    then have "\<bar>fl x - x\<bar> \<le> 2 powi (- 1075)" using fl_error_expo[of x] by simp
    moreover have "0 \<le> \<bar>x\<bar> / 2 ^ 53" by simp
    ultimately show ?thesis by linarith
  next
    case F: False
    have "(2::real) powi (expo x - 53) = 2 powi expo x / 2 ^ 53"
      by (simp add: power_int_diff)
    also have "\<dots> \<le> \<bar>x\<bar> / 2 ^ 53"
      using expo_bounds(2)[OF False F] by (simp add: divide_right_mono)
    finally have "\<bar>fl x - x\<bar> \<le> \<bar>x\<bar> / 2 ^ 53" using fl_error_expo[of x] by linarith
    moreover have "(0::real) \<le> 2 powi (- 1075)" by simp
    ultimately show ?thesis by linarith
  qed
qed

lemma fl_dyadic:
  assumes "\<bar>m\<bar> < 2 ^ 53" "- 1074 \<le> e"
  shows "fl (of_int m * 2 powi e) = of_int m * 2 powi e"
proof (cases "m = 0")
  case True
  then show ?thesis by (simp add: fl_def)
next
  case False
  let ?x = "real_of_int m * 2 powi e"
  let ?E = "expo ?x"
  have x0: "?x \<noteq> 0" using False by simp
  have "0 \<le> e + 52 - ?E"
  proof (cases "?E = - 1022")
    case True
    then show ?thesis using assms(2) by simp
  next
    case F: False
    have "2 powi ?E \<le> \<bar>?x\<bar>" using expo_bounds(2)[OF x0 F] .
    also have "\<bar>?x\<bar> = \<bar>real_of_int m\<bar> * 2 powi e" by (simp add: abs_mult)
    also have "\<dots> < 2 ^ 53 * 2 powi e"
    proof -
      have "\<bar>real_of_int m\<bar> < 2 ^ 53" using assms(1)
        by (metis of_int_abs of_int_less_numeral_power_cancel_iff)
      then show ?thesis by (intro mult_strict_right_mono) auto
    qed
    also have "\<dots> = 2 powi (53 + e)" by (simp add: power_int_add)
    finally have lt: "(2::real) powi ?E < 2 powi (53 + e)" .
    have "?E < 53 + e"
    proof (rule ccontr)
      assume "\<not> ?E < 53 + e"
      then have "(2::real) powi (53 + e) \<le> 2 powi ?E"
        by (intro power_int_increasing) auto
      with lt show False by simp
    qed
    then show ?thesis by simp
  qed
  then obtain n where n: "e + 52 - ?E = int n" using nonneg_int_cases by blast
  have "?x * 2 powi (52 - ?E) = of_int m * 2 powi (e + 52 - ?E)"
    by (simp add: power_int_add power_int_diff)
  also have "\<dots> = of_int (m * 2 ^ n)" by (simp add: n)
  finally have "rne (?x * 2 powi (52 - ?E)) = m * 2 ^ n" by (simp only: rne_of_int)
  then have "fl ?x = of_int (m * 2 ^ n) * 2 powi (?E - 52)"
    using x0 by (simp add: fl_def)
  also have "\<dots> = of_int m * (2 powi (e + 52 - ?E) * 2 powi (?E - 52))"
    by (simp add: n)
  also have "2 powi (e + 52 - ?E) * 2 powi (?E - 52) = (2::real) powi e"
    by (simp add: power_int_add[symmetric])
  finally show ?thesis .
qed

lemma fl_of_int: "\<bar>m\<bar> < 2 ^ 53 \<Longrightarrow> fl (of_int m) = of_int m"
  using fl_dyadic[of m 0] by simp

lemma is_double_of_int: "\<bar>m\<bar> < 2 ^ 53 \<Longrightarrow> is_double (of_int m)"
proof -
  assume a: "\<bar>m\<bar> < 2 ^ 53"
  then have "\<bar>real_of_int m\<bar> < 2 ^ 53"
    by (metis of_int_abs of_int_less_numeral_power_cancel_iff)
  moreover have "(2::real) ^ 53 < 2 ^ 1024" by simp
  ultimately have "\<bar>real_of_int m\<bar> < 2 ^ 1024" by linarith
  then show ?thesis using fl_of_int[OF a] by (simp add: is_double_def)
qed

lemma round_num_double: "is_double x \<Longrightarrow> round_num x = Fin x"
  by (auto simp: round_num_def is_double_def Let_def)

lemma round_num_0: "round_num 0 = Fin 0"
  by (simp add: round_num_def fl_0)

lemma round_num_eval:
  assumes "2 powi e \<le> \<bar>x\<bar>" "\<bar>x\<bar> < 2 powi (e + 1)" "- 1022 \<le> e"
    and "of_int (rne (x * 2 powi (52 - e))) * 2 powi (e - 52) = y" "\<bar>y\<bar> < 2 ^ 1024"
  shows "round_num x = Fin y"
  using fl_eval[OF assms(1-3)] assms(4,5) by (auto simp: round_num_def Let_def)

lemma round_num_numeral:
  "(numeral n :: int) < 2 ^ 53 \<Longrightarrow> round_num (numeral n) = Fin (numeral n)"
  using is_double_of_int[of "numeral n"] round_num_double[of "numeral n"] by simp

lemma round_num_neg_numeral:
  "(numeral n :: int) < 2 ^ 53 \<Longrightarrow> round_num (- numeral n) = Fin (- numeral n)"
  using is_double_of_int[of "- numeral n"] round_num_double[of "- numeral n"] by simp

lemma round_num_1: "round_num 1 = Fin 1"
  using is_double_of_int[of 1] round_num_double[of 1] by simp

lemma round_num_neg_1: "round_num (- 1) = Fin (- 1)"
  using is_double_of_int[of "- 1"] round_num_double[of "- 1"] by simp

lemma is_double_dyadic:
  assumes "\<bar>m\<bar> < 2 ^ 53" "- 1074 \<le> e" "e \<le> 970"
  shows "is_double (of_int m * 2 powi e)"
proof -
  have "\<bar>real_of_int m\<bar> < 2 ^ 53" using assms(1)
    by (metis of_int_abs of_int_less_numeral_power_cancel_iff)
  then have "\<bar>real_of_int m * 2 powi e\<bar> \<le> 2 ^ 53 * 2 powi e"
    by (simp add: abs_mult mult_right_mono)
  also have "\<dots> = 2 powi (53 + e)" by (simp add: power_int_add)
  also have "\<dots> \<le> 2 powi 1023" using assms(3) by (intro power_int_increasing) auto
  also have "\<dots> < 2 ^ 1024" by simp
  finally show ?thesis using fl_dyadic[OF assms(1,2)] by (simp add: is_double_def)
qed

lemma round_num_half_numeral:
  "(numeral n :: int) < 2 ^ 53 \<Longrightarrow> round_num (numeral n / 2) = Fin (numeral n / 2)"
  using is_double_dyadic[of "numeral n" "- 1"] round_num_double[of "numeral n / 2"]
  by (simp add: power_int_minus field_simps)

lemma round_num_half: "round_num (1 / 2) = Fin (1 / 2)"
  using is_double_dyadic[of 1 "- 1"] round_num_double[of "1 / 2"]
  by (simp add: power_int_minus field_simps)

lemmas round_num_small = round_num_0 round_num_1 round_num_neg_1 round_num_numeral
  round_num_neg_numeral round_num_half_numeral round_num_half

lemmas simple_defs = removeArtifactsSimple_def simple_loop_def simple_step_def
  signal_mean_def signal_std_def deviation_def jsub_def jpow2_def jgt_def jeq_def num_of_nat_def

section \<open>Bounds on rounded values\<close>

lemma rne_between: "\<lfloor>y\<rfloor> \<le> rne y \<and> rne y \<le> \<lceil>y\<rceil>"
proof -
  have "y \<noteq> of_int \<lfloor>y\<rfloor> \<Longrightarrow> \<lceil>y\<rceil> = \<lfloor>y\<rfloor> + 1"
    by (metis ceiling_altdef)
  moreover have "y = of_int \<lfloor>y\<rfloor> \<Longrightarrow> rne y = \<lfloor>y\<rfloor>"
    by (simp add: rne_def Let_def)
  moreover have "\<lfloor>y\<rfloor> \<le> \<lceil>y\<rceil>" by (simp add: floor_le_ceiling)
  ultimately show ?thesis by (auto simp: rne_def Let_def)
qed

lemma rne_abs_le: "\<bar>y\<bar> \<le> of_int N \<Longrightarrow> \<bar>rne y\<bar> \<le> N"
proof -
  assume a: "\<bar>y\<bar> \<le> of_int N"
  then have "y \<le> of_int N" "of_int (- N) \<le> y" by auto
  then have "\<lceil>y\<rceil> \<le> N" "- N \<le> \<lfloor>y\<rfloor>"
    by (simp_all add: ceiling_le_iff le_floor_iff)
  with rne_between[of y] show ?thesis by linarith
qed

lemma fl_abs_le_pow2:
  assumes "\<bar>x\<bar> \<le> 2 ^ k"
  shows "\<bar>fl x\<bar> \<le> 2 ^ k"
proof (cases "\<bar>x\<bar> = 2 ^ k")
  case True
  then have "x = of_int 1 * 2 powi (int k) \<or> x = of_int (- 1) * 2 powi (int k)"
    by (auto simp: abs_if split: if_splits)
  then have "fl x = x"
    using fl_dyadic[of 1 "int k"] fl_dyadic[of "- 1" "int k"] by auto
  then show ?thesis using assms by simp
next
  case False
  with assms have lt: "\<bar>x\<bar> < 2 ^ k" by simp
  show ?thesis
  proof (cases "x = 0")
    case True
    then show ?thesis by (simp add: fl_0)
  next
    case x0: False
    let ?e = "expo x"
    let ?y = "x * 2 powi (52 - ?e)"
    have e_lt: "?e < int k"
    proof (cases "?e = - 1022")
      case True
      then show ?thesis by simp
    next
      case F: False
      have "2 powi ?e \<le> \<bar>x\<bar>" using expo_bounds(2)[OF x0 F] .
      with lt have l: "(2::real) powi ?e < 2 powi (int k)" by simp
      show ?thesis
      proof (rule ccontr)
        assume "\<not> ?e < int k"
        then have "(2::real) powi (int k) \<le> 2 powi ?e"
          by (intro power_int_increasing) auto
        with l show False by simp
      qed
    qed
    have "\<bar>?y\<bar> = \<bar>x\<bar> * 2 powi (52 - ?e)" by (simp add: abs_mult)
    also have "\<dots> \<le> 2 powi (?e + 1) * 2 powi (52 - ?e)"
      using expo_bounds(1)[OF x0] by (intro mult_right_mono) auto
    also have "\<dots> = 2 powi 53" by (simp add: power_int_add[symmetric])
    finally have "\<bar>?y\<bar> \<le> of_int (2 ^ 53)" by simp
    then have "\<bar>rne ?y\<bar> \<le> 2 ^ 53" by (rule rne_abs_le)
    then have r: "\<bar>real_of_int (rne ?y)\<bar> \<le> 2 ^ 53"
      by (metis of_int_abs of_int_le_numeral_power_cancel_iff)
    have "\<bar>fl x\<bar> = \<bar>real_of_int (rne ?y)\<bar> * 2 powi (?e - 52)"
      using x0 by (simp add: fl_def abs_mult)
    also have "\<dots> \<le> 2 ^ 53 * 2 powi (?e - 52)"
      using r by (intro mult_right_mono) auto
    also have "\<dots> = 2 powi (?e + 1)" by (simp add: power_int_add power_int_diff)
    also have "\<dots> \<le> 2 powi (int k)"
      using e_lt by (intro power_int_increasing) auto
    finally show ?thesis by simp
  qed
qed

lemma round_num_bounded:
  assumes "\<bar>x\<bar> \<le> 2 ^ k" "k < 1024"
  shows "round_num x = Fin (fl x)" and "\<bar>fl x\<bar> \<le> 2 ^ k"
proof -
  show b: "\<bar>fl x\<bar> \<le> 2 ^ k" using assms(1) by (rule fl_abs_le_pow2)
  have "(2::real) ^ k < 2 ^ 1024" using assms(2) by (intro power_strict_increasing) auto
  with b have "\<bar>fl x\<bar> < 2 ^ 1024" by linarith
  then show "round_num x = Fin (fl x)" by (auto simp: round_num_def Let_def)
qed

section \<open>Rounding is monotone\<close>

lemma rne_mono:
  assumes "x \<le> y"
  shows "rne x \<le> rne y"
proof (cases "\<lfloor>x\<rfloor> = \<lfloor>y\<rfloor>")
  case True
  have "x - of_int \<lfloor>x\<rfloor> \<le> y - of_int \<lfloor>y\<rfloor>" using assms True by simp
  then show ?thesis using True by (auto simp: rne_def Let_def)
next
  case False
  have "\<lfloor>x\<rfloor> \<le> \<lfloor>y\<rfloor>" using assms by (rule floor_mono)
  with False have "\<lfloor>x\<rfloor> + 1 \<le> \<lfloor>y\<rfloor>" by simp
  moreover have "rne x \<le> \<lfloor>x\<rfloor> + 1" by (auto simp: rne_def Let_def)
  moreover have "\<lfloor>y\<rfloor> \<le> rne y" using rne_between[of y] by simp
  ultimately show ?thesis by linarith
qed

lemma rne_minus: "rne (- y) = - rne y"
proof (cases "y = of_int \<lfloor>y\<rfloor>")
  case True
  then obtain k where "y = of_int k" by metis
  then show ?thesis using rne_of_int[of k] rne_of_int[of "- k"] by simp
next
  case False
  then have "\<lceil>y\<rceil> = \<lfloor>y\<rfloor> + 1" by (simp add: ceiling_altdef)
  moreover have "\<lfloor>- y\<rfloor> = - \<lceil>y\<rceil>" by (simp add: ceiling_def)
  ultimately have fl: "\<lfloor>- y\<rfloor> = - \<lfloor>y\<rfloor> - 1" by simp
  have d: "- y - of_int \<lfloor>- y\<rfloor> = 1 - (y - of_int \<lfloor>y\<rfloor>)" by (simp add: fl)
  have ev: "even (- \<lfloor>y\<rfloor> - 1) \<longleftrightarrow> odd \<lfloor>y\<rfloor>" by simp
  show ?thesis
    unfolding rne_def Let_def d
    unfolding fl ev
    by auto
qed

lemma expo_minus: "expo (- x) = expo x"
  by (simp add: expo_def)

lemma fl_minus: "fl (- x) = - fl x"
  by (simp add: fl_def expo_minus rne_minus)

lemma fl_nonneg: "0 \<le> x \<Longrightarrow> 0 \<le> fl x"
proof -
  assume a: "0 \<le> x"
  have "0 \<le> x * 2 powi (52 - expo x)" using a by simp
  then have "rne 0 \<le> rne (x * 2 powi (52 - expo x))" by (rule rne_mono)
  then have "0 \<le> rne (x * 2 powi (52 - expo x))" using rne_of_int[of 0] by simp
  then show ?thesis by (simp add: fl_def)
qed

lemma expo_mono:
  assumes "0 < x" "x \<le> y"
  shows "expo x \<le> expo y"
proof -
  have "log 2 x \<le> log 2 y" using assms by simp
  then have "\<lfloor>log 2 \<bar>x\<bar>\<rfloor> \<le> \<lfloor>log 2 \<bar>y\<bar>\<rfloor>" using assms by (simp add: floor_mono)
  then show ?thesis by (simp add: expo_def)
qed

lemma fl_upper_expo:
  assumes "x \<noteq> 0"
  shows "\<bar>fl x\<bar> \<le> 2 powi (expo x + 1)"
proof -
  let ?e = "expo x"
  let ?y = "x * 2 powi (52 - ?e)"
  have "\<bar>?y\<bar> = \<bar>x\<bar> * 2 powi (52 - ?e)" by (simp add: abs_mult)
  also have "\<dots> \<le> 2 powi (?e + 1) * 2 powi (52 - ?e)"
    using expo_bounds(1)[OF assms] by (intro mult_right_mono) auto
  also have "\<dots> = 2 powi 53" by (simp add: power_int_add[symmetric])
  finally have "\<bar>?y\<bar> \<le> of_int (2 ^ 53)" by simp
  then have "\<bar>rne ?y\<bar> \<le> 2 ^ 53" by (rule rne_abs_le)
  then have "real_of_int \<bar>rne ?y\<bar> \<le> real_of_int (2 ^ 53)" by (simp only: of_int_le_iff)
  then have r: "\<bar>real_of_int (rne ?y)\<bar> \<le> 2 ^ 53" by simp
  have "\<bar>fl x\<bar> = \<bar>real_of_int (rne ?y)\<bar> * 2 powi (?e - 52)"
    using assms by (simp add: fl_def abs_mult)
  also have "\<dots> \<le> 2 ^ 53 * 2 powi (?e - 52)"
    using r by (intro mult_right_mono) auto
  also have "\<dots> = 2 powi (?e + 1)" by (simp add: power_int_add power_int_diff)
  finally show ?thesis .
qed

lemma fl_lower_expo:
  assumes "0 < x" "expo x \<noteq> - 1022"
  shows "2 powi (expo x) \<le> fl x"
proof -
  let ?e = "expo x"
  let ?y = "x * 2 powi (52 - ?e)"
  have x0: "x \<noteq> 0" using assms(1) by simp
  have "2 powi ?e \<le> \<bar>x\<bar>" using expo_bounds(2)[OF x0 assms(2)] .
  then have "2 powi ?e \<le> x" using assms(1) by simp
  then have "2 powi ?e * 2 powi (52 - ?e) \<le> ?y"
    by (intro mult_right_mono) auto
  then have "of_int (2 ^ 52) \<le> ?y" by (simp add: power_int_add[symmetric])
  then have "rne (of_int (2 ^ 52)) \<le> rne ?y" by (rule rne_mono)
  then have "2 ^ 52 \<le> rne ?y" by (simp only: rne_of_int)
  then have "real_of_int (2 ^ 52) \<le> real_of_int (rne ?y)" by (simp only: of_int_le_iff)
  then have r: "(2::real) ^ 52 \<le> real_of_int (rne ?y)" by simp
  have "(2::real) powi ?e = 2 ^ 52 * 2 powi (?e - 52)"
    by (simp add: power_int_diff)
  also have "\<dots> \<le> real_of_int (rne ?y) * 2 powi (?e - 52)"
    using r by (intro mult_right_mono) auto
  also have "\<dots> = fl x" using x0 by (simp add: fl_def)
  finally show ?thesis .
qed

lemma fl_mono_pos:
  assumes "0 < x" "x \<le> y"
  shows "fl x \<le> fl y"
proof (cases "expo x = expo y")
  case True
  have "x * 2 powi (52 - expo y) \<le> y * 2 powi (52 - expo y)"
    using assms(2) by (intro mult_right_mono) auto
  then have "rne (x * 2 powi (52 - expo y)) \<le> rne (y * 2 powi (52 - expo y))" by (rule rne_mono)
  then have "real_of_int (rne (x * 2 powi (52 - expo y))) * 2 powi (expo y - 52)
          \<le> real_of_int (rne (y * 2 powi (52 - expo y))) * 2 powi (expo y - 52)"
    by (intro mult_right_mono) auto
  then show ?thesis using assms True by (simp add: fl_def)
next
  case False
  with expo_mono[OF assms] have lt: "expo x < expo y" by simp
  have y0: "0 < y" using assms by simp
  have "expo y \<noteq> - 1022" using lt expo_ge[of x] by simp
  from fl_lower_expo[OF y0 this] have ly: "2 powi (expo y) \<le> fl y" .
  have "fl x \<le> \<bar>fl x\<bar>" by simp
  also have "\<dots> \<le> 2 powi (expo x + 1)" using fl_upper_expo[of x] assms(1) by simp
  also have "\<dots> \<le> 2 powi (expo y)" using lt by (intro power_int_increasing) auto
  finally show ?thesis using ly by simp
qed

lemma fl_mono:
  assumes "x \<le> y"
  shows "fl x \<le> fl y"
proof -
  consider "0 < x" | "x \<le> 0" "0 \<le> y" | "y < 0" by linarith
  then show ?thesis
  proof cases
    case 1
    then show ?thesis using assms by (rule fl_mono_pos)
  next
    case 2
    have "fl x \<le> 0" using fl_nonneg[of "- x"] 2(1) by (simp add: fl_minus)
    moreover have "0 \<le> fl y" using 2(2) by (rule fl_nonneg)
    ultimately show ?thesis by simp
  next
    case 3
    have "fl (- y) \<le> fl (- x)" using 3 assms by (intro fl_mono_pos) auto
    then show ?thesis by (simp add: fl_minus)
  qed
qed

lemma round_num_between:
  assumes "lo \<le> x" "x \<le> hi" "is_double lo" "is_double hi"
  shows "\<exists>y. round_num x = Fin y \<and> lo \<le> y \<and> y \<le> hi"
proof -
  have lo: "lo \<le> fl x" using fl_mono[OF assms(1)] assms(3) by (simp add: is_double_def)
  have hi: "fl x \<le> hi" using fl_mono[OF assms(2)] assms(4) by (simp add: is_double_def)
  have "- (2 ^ 1024) < lo" "hi < 2 ^ 1024" using assms(3,4) by (auto simp: is_double_def)
  with lo hi show ?thesis by (auto simp: round_num_def Let_def)
qed

section \<open>Error bounds and intervals\<close>

lemma tiny_le: "(2::real) powi (- 1075) \<le> 1 / 2 ^ 53"
proof -
  have "(2::real) powi (- 1075) \<le> 2 powi (- 53)" by (intro power_int_increasing) auto
  then show ?thesis by (simp add: power_int_minus field_simps)
qed

lemma fl_error_bound:
  assumes "\<bar>x\<bar> \<le> M"
  shows "\<bar>fl x - x\<bar> \<le> (M + 1) / 2 ^ 53"
proof -
  have "\<bar>fl x - x\<bar> \<le> \<bar>x\<bar> / 2 ^ 53 + 2 powi (- 1075)" by (rule fl_error)
  also have "\<dots> \<le> M / 2 ^ 53 + 1 / 2 ^ 53"
    using assms tiny_le by (intro add_mono divide_right_mono) auto
  also have "\<dots> = (M + 1) / 2 ^ 53" by (simp add: add_divide_distrib)
  finally show ?thesis .
qed


lemma is_double_ratio:
  assumes "\<bar>m\<bar> < 2 ^ 53" "k \<le> 1074"
  shows "is_double (of_int m / 2 ^ k)"
proof -
  have "is_double (of_int m * 2 powi (- int k))"
    using assms by (intro is_double_dyadic) auto
  then show ?thesis by (simp add: power_int_minus field_simps)
qed

lemma between_ratio:
  assumes "lo = of_int m / 2 ^ k" "hi = of_int n / 2 ^ k" "\<bar>m\<bar> < 2 ^ 53" "\<bar>n\<bar> < 2 ^ 53"
    "k \<le> 1074" "lo \<le> x" "x \<le> hi"
  shows "\<exists>y. round_num x = Fin y \<and> lo \<le> y \<and> y \<le> hi"
  using assms by (intro round_num_between) (simp_all add: is_double_ratio)

lemma mult_between:
  fixes a b :: real
  assumes "0 \<le> la" "la \<le> a" "a \<le> ha" "0 \<le> lb" "lb \<le> b" "b \<le> hb"
  shows "la * lb \<le> a * b" and "a * b \<le> ha * hb"
  using assms by (auto intro!: mult_mono)

lemma div_between:
  fixes a b :: real
  assumes "0 \<le> la" "la \<le> a" "a \<le> ha" "0 < lb" "lb \<le> b" "b \<le> hb"
  shows "la / hb \<le> a / b" and "a / b \<le> ha / lb"
  using assms by (auto intro!: frac_le)

lemma js_PI_near: "\<exists>p. js_PI = Fin p \<and> \<bar>p - pi\<bar> \<le> 5 / 2 ^ 53 \<and> \<bar>p\<bar> \<le> 4"
proof -
  have b: "\<bar>pi\<bar> \<le> 2 ^ 2" using pi_less_4 pi_gt_zero by simp
  have "round_num pi = Fin (fl pi)" using round_num_bounded(1)[OF b] by simp
  moreover have "\<bar>fl pi - pi\<bar> \<le> (4 + 1) / 2 ^ 53"
    using b by (intro fl_error_bound) simp
  moreover have "\<bar>fl pi\<bar> \<le> 4" using round_num_bounded(2)[OF b] by simp
  ultimately show ?thesis by (simp add: js_PI_def)
qed

lemma round_num_near:
  assumes "\<bar>x\<bar> \<le> 2 ^ k" "k < 1024"
  shows "\<exists>y. round_num x = Fin y \<and> \<bar>y - x\<bar> \<le> (2 ^ k + 1) / 2 ^ 53"
proof -
  have "round_num x = Fin (fl x)" using assms by (rule round_num_bounded(1))
  moreover have "\<bar>fl x - x\<bar> \<le> (2 ^ k + 1) / 2 ^ 53"
    using assms(1) by (rule fl_error_bound)
  ultimately show ?thesis by simp
qed

section \<open>Properties of the statistical artifact removal\<close>

lemma simple_loop_Suc:
  "simple_loop signal threshold mean std (Suc k) =
     simple_step signal threshold mean std (simple_loop signal threshold mean std k) k"
  by (simp add: simple_loop_def)

lemma simple_loop_0: "simple_loop signal threshold mean std 0 = ([], [], [])"
  by (simp add: simple_loop_def)

lemma simple_loop_length:
  "simple_loop signal threshold mean std k = (clean, removed, indices) \<Longrightarrow>
     length clean = k \<and> length removed = k \<and> set indices \<subseteq> {0..<k}"
proof (induction k arbitrary: clean removed indices)
  case 0
  then show ?case by (simp add: simple_loop_0)
next
  case (Suc k)
  obtain c r ix where prev: "simple_loop signal threshold mean std k = (c, r, ix)"
    by (cases "simple_loop signal threshold mean std k") auto
  from Suc.IH[OF prev] have len: "length c = k" "length r = k" "set ix \<subseteq> {0..<k}" by auto
  from Suc.prems show ?case
    unfolding simple_loop_Suc prev simple_step_def
    using len by (auto simp: Let_def less_Suc_eq split: if_splits)
qed

lemma simple_loop_nth:
  assumes "simple_loop signal threshold mean std k = (clean, removed, indices)" "i < k"
  shows "clean ! i =
           (if jgt (deviation signal mean std i) threshold
            then jdiv (jadd (if 0 < i then signal ! (i - 1) else mean)
                            (if i < length signal - 1 then signal ! (i + 1) else mean)) (Fin 2)
            else signal ! i) \<and>
         removed ! i =
           (if jgt (deviation signal mean std i) threshold
            then jsub (signal ! i) (clean ! i) else Fin 0) \<and>
         (i \<in> set indices \<longleftrightarrow> jgt (deviation signal mean std i) threshold)"
  using assms
proof (induction k arbitrary: clean removed indices)
  case 0
  then show ?case by simp
next
  case (Suc k)
  obtain c r ix where prev: "simple_loop signal threshold mean std k = (c, r, ix)"
    by (cases "simple_loop signal threshold mean std k") auto
  have len: "length c = k" "length r = k" "set ix \<subseteq> {0..<k}"
    using simple_loop_length[OF prev] by auto
  show ?case
  proof (cases "i = k")
    case True
    have "k \<notin> set ix" using len(3) by auto
    with Suc.prems(1) True len show ?thesis
      unfolding simple_loop_Suc prev simple_step_def
      by (auto simp: Let_def nth_append split: if_splits)
  next
    case False
    then have "i < k" using Suc.prems(2) by simp
    from Suc.IH[OF prev this] Suc.prems(1) \<open>i < k\<close> len show ?thesis
      unfolding simple_loop_Suc prev simple_step_def
      by (auto simp: Let_def nth_append split: if_splits)
  qed
qed

lemma removeArtifactsSimple_nth:
  assumes "i < length signal"
  shows "cleanSignal (removeArtifactsSimple signal threshold) ! i =
           (if is_artifact signal threshold i
            then jdiv (jadd (if 0 < i then signal ! (i - 1) else signal_mean signal)
                            (if i < length signal - 1 then signal ! (i + 1) else signal_mean signal))
                      (Fin 2)
            else signal ! i)"
    and "removedArtifacts (removeArtifactsSimple signal threshold) ! i =
           (if is_artifact signal threshold i
            then jsub (signal ! i) (cleanSignal (removeArtifactsSimple signal threshold) ! i)
            else Fin 0)"
    and "i \<in> set (artifactIndices (removeArtifactsSimple signal threshold)) \<longleftrightarrow>
           is_artifact signal threshold i"
proof -
  let ?mean = "signal_mean signal"
  let ?std = "signal_std signal ?mean"
  obtain c r ix where loop: "simple_loop signal threshold ?mean ?std (length signal) = (c, r, ix)"
    by (cases "simple_loop signal threshold ?mean ?std (length signal)") auto
  have res: "removeArtifactsSimple signal threshold =
      \<lparr>cleanSignal = c, components = [signal], removedArtifacts = r, artifactIndices = ix\<rparr>"
    by (simp add: removeArtifactsSimple_def Let_def loop)
  note nth = simple_loop_nth[OF loop assms]
  show "cleanSignal (removeArtifactsSimple signal threshold) ! i =
           (if is_artifact signal threshold i
            then jdiv (jadd (if 0 < i then signal ! (i - 1) else signal_mean signal)
                            (if i < length signal - 1 then signal ! (i + 1) else signal_mean signal))
                      (Fin 2)
            else signal ! i)"
    using nth by (simp add: res is_artifact_def)
  show "removedArtifacts (removeArtifactsSimple signal threshold) ! i =
           (if is_artifact signal threshold i
            then jsub (signal ! i) (cleanSignal (removeArtifactsSimple signal threshold) ! i)
            else Fin 0)"
    using nth by (simp add: res is_artifact_def)
  show "i \<in> set (artifactIndices (removeArtifactsSimple signal threshold)) \<longleftrightarrow>
           is_artifact signal threshold i"
    using nth by (simp add: res is_artifact_def)
qed

lemma round_num_Fin: "round_num x = Fin t \<Longrightarrow> t = fl x"
  by (auto simp: round_num_def Let_def split: if_splits)

lemma jadd_Fin_Fin: "jadd (Fin a) y = Fin t \<Longrightarrow> \<exists>b. y = Fin b \<and> t = fl (a + b)"
  by (cases y) (auto dest: round_num_Fin)

lemma jsub_Fin: "jsub (Fin a) (Fin b) = Fin d \<Longrightarrow> d = fl (a - b)"
  by (auto simp: jsub_def dest: round_num_Fin)

lemma sub_add_error:
  fixes s c :: real
  assumes d: "d = fl (s - c)" and t: "t = fl (c + d)"
  shows "\<bar>t - s\<bar> \<le> (\<bar>s\<bar> + \<bar>c\<bar>) / 2 ^ 51 + 2 powi (- 1073)"
proof -
  define u :: real where "u = 1 / 2 ^ 53"
  define w :: real where "w = 2 powi (- 1075)"
  define a where "a = \<bar>s\<bar> + \<bar>c\<bar>"
  have u: "0 < u" "u \<le> 1" by (simp_all add: u_def)
  have w: "0 \<le> w" by (simp add: w_def)
  have a: "0 \<le> a" by (simp add: a_def)
  have e1: "\<bar>d - (s - c)\<bar> \<le> \<bar>s - c\<bar> * u + w"
    using fl_error[of "s - c"] by (simp add: d u_def w_def)
  have e2: "\<bar>t - (c + d)\<bar> \<le> \<bar>c + d\<bar> * u + w"
    using fl_error[of "c + d"] by (simp add: t u_def w_def)
  have sc: "\<bar>s - c\<bar> \<le> a" by (simp add: a_def)
  have e1': "\<bar>d - (s - c)\<bar> \<le> a * u + w"
    using e1 mult_right_mono[OF sc, of u] u by linarith
  have cd: "\<bar>c + d\<bar> \<le> a + (a * u + w)"
    using e1' by (simp add: a_def)
  have "\<bar>c + d\<bar> * u \<le> (a + (a * u + w)) * u"
    using mult_right_mono[OF cd, of u] u by simp
  also have "\<dots> \<le> a * u + a * u + w"
  proof -
    have "a * u * u \<le> a * u" using a u by (simp add: mult_left_le)
    moreover have "w * u \<le> w" using w u by (simp add: mult_left_le)
    ultimately show ?thesis by (simp add: algebra_simps)
  qed
  finally have e2': "\<bar>t - (c + d)\<bar> \<le> a * u + a * u + w + w" using e2 by linarith
  have "\<bar>t - s\<bar> \<le> \<bar>t - (c + d)\<bar> + \<bar>d - (s - c)\<bar>" by simp
  also have "\<dots> \<le> 3 * (a * u) + 3 * w" using e1' e2' by linarith
  also have "\<dots> \<le> a / 2 ^ 51 + 2 powi (- 1073)"
  proof -
    have "3 * (a * u) \<le> 4 * (a * u)" using a u by simp
    also have "\<dots> = a / 2 ^ 51" by (simp add: u_def)
    finally have 1: "3 * (a * u) \<le> a / 2 ^ 51" .
    have "3 * w \<le> 4 * w" using w by simp
    also have "\<dots> = 2 powi (- 1073)" by (simp add: w_def power_int_minus)
    finally have 2: "3 * w \<le> 2 powi (- 1073)" .
    from 1 2 show ?thesis by linarith
  qed
  finally show ?thesis by (simp add: a_def)
qed

text \<open>
  Claim C1, as amended.  For a sample \<open>i\<close> holding a finite value, \<^verbatim>\<open>removedArtifacts[i]\<close>
  is the rounded difference \<^verbatim>\<open>signal[i] - cleanSignal[i]\<close>; the sum
  \<^verbatim>\<open>cleanSignal[i] + removedArtifacts[i]\<close> equals \<^verbatim>\<open>signal[i]\<close> exactly when the sample
  was not replaced, and in every case, when finite, differs from it by no more than
  the two roundings allow.
\<close>

theorem removeArtifactsSimple_reconstruction:
  assumes "i < length signal" and "signal ! i = Fin s" and "is_double s"
  shows "removedArtifacts (removeArtifactsSimple signal threshold) ! i =
           jsub (signal ! i) (cleanSignal (removeArtifactsSimple signal threshold) ! i)
       \<and> (\<not> is_artifact signal threshold i \<longrightarrow>
            jeq (jadd (cleanSignal (removeArtifactsSimple signal threshold) ! i)
                      (removedArtifacts (removeArtifactsSimple signal threshold) ! i))
                (signal ! i))
       \<and> (\<forall>c t. cleanSignal (removeArtifactsSimple signal threshold) ! i = Fin c \<and>
                 jadd (cleanSignal (removeArtifactsSimple signal threshold) ! i)
                      (removedArtifacts (removeArtifactsSimple signal threshold) ! i) = Fin t \<longrightarrow>
                 \<bar>t - s\<bar> \<le> (\<bar>s\<bar> + \<bar>c\<bar>) / 2 ^ 51 + 2 powi (- 1073))"
proof -
  let ?r = "removeArtifactsSimple signal threshold"
  note nth = removeArtifactsSimple_nth[OF assms(1), of threshold]
  have s0: "round_num (s - s) = Fin 0" by (simp add: round_num_0)
  have rem: "removedArtifacts ?r ! i = jsub (signal ! i) (cleanSignal ?r ! i)"
    using nth(1,2) assms(2) s0 by (simp add: jsub_def)
  have ex: "\<not> is_artifact signal threshold i \<Longrightarrow>
      jeq (jadd (cleanSignal ?r ! i) (removedArtifacts ?r ! i)) (signal ! i)"
    using nth(1,2) assms(2) round_num_double[OF assms(3)] by (simp add: jeq_def)
  have bound: "\<bar>t - s\<bar> \<le> (\<bar>s\<bar> + \<bar>c\<bar>) / 2 ^ 51 + 2 powi (- 1073)"
    if c: "cleanSignal ?r ! i = Fin c"
    and t: "jadd (cleanSignal ?r ! i) (removedArtifacts ?r ! i) = Fin t" for c t
  proof -
    from t c obtain d where d: "removedArtifacts ?r ! i = Fin d" and td: "t = fl (c + d)"
      using jadd_Fin_Fin by metis
    from rem d c assms(2) have "jsub (Fin s) (Fin c) = Fin d" by simp
    then have "d = fl (s - c)" by (rule jsub_Fin)
    then show ?thesis using td by (rule sub_add_error)
  qed
  from rem ex bound show ?thesis by blast
qed

text \<open>
  Claim C10.  A sample whose deviation from the mean, in units of the standard
  deviation, does not exceed the threshold is copied to \<^verbatim>\<open>cleanSignal\<close>, contributes
  0 to \<^verbatim>\<open>removedArtifacts\<close> and is not listed in \<^verbatim>\<open>artifactIndices\<close>.
\<close>

theorem removeArtifactsSimple_unflagged_unchanged:
  assumes "i < length signal" and "\<not> is_artifact signal threshold i"
  shows "cleanSignal (removeArtifactsSimple signal threshold) ! i = signal ! i
       \<and> removedArtifacts (removeArtifactsSimple signal threshold) ! i = Fin 0
       \<and> i \<notin> set (artifactIndices (removeArtifactsSimple signal threshold))"
  using removeArtifactsSimple_nth[OF assms(1), of threshold] assms(2) by simp

section \<open>The statistical artifact removal on concrete signals\<close>

lemma upt2: "[0..<2] = [0, 1]"
  by (simp add: upt_rec)

lemma upt5: "[0..<5] = [0, 1, 2, 3, 4]"
  by (simp add: upt_rec)

lemma q1: "round_num (1 / 2 ^ 60) = Fin (1 / 2 ^ 60)"
  by (rule round_num_eval[of "- 60"]) (simp_all add: rne_def power_int_minus)

lemma q2: "round_num (1 / 2 ^ 60 + 1) = Fin 1"
  by (rule round_num_eval[of 0]) (simp_all add: rne_def power_int_minus)

lemma q3: "round_num (1 / 2 ^ 60 - 1 / 2) = Fin (- (1 / 2))"
  by (rule round_num_eval[of "- 2"]) (simp_all add: rne_def power_int_minus)

lemma q4: "round_num (1 / 4) = Fin (1 / 4)"
  by (rule round_num_eval[of "- 2"]) (simp_all add: rne_def power_int_minus)

lemma q5: "round_num (3 / 4) = Fin (3 / 4)"
  by (rule round_num_eval[of "- 1"]) (simp_all add: rne_def power_int_minus)

lemma q6: "round_num (1 / 2 ^ 60 - 3 / 4) = Fin (- (3 / 4))"
  by (rule round_num_eval[of "- 1"]) (simp_all add: rne_def power_int_minus)

lemma q7: "round_num (1 / 2 ^ 60 + 1 / 2) = Fin (1 / 2)"
  by (rule round_num_eval[of "- 1"]) (simp_all add: rne_def power_int_minus)

lemma sqrt_quarter: "sqrt (1 / 4) = 1 / 2"
  by (simp add: real_sqrt_divide)

lemmas rs = q1[simplified] q2[simplified] q3[simplified] q4[simplified] q5[simplified]
  q6[simplified] q7[simplified] sqrt_quarter

text \<open>
  Claim C1 as stated fails.  In the signal \<open>[2 powi (- 60), 1]\<close> with threshold
  \<open>1 / 2\<close> both samples are replaced; the first becomes \<open>3 / 4\<close>, the difference
  \<open>2 powi (- 60) - 3 / 4\<close> rounds to \<open>- (3 / 4)\<close>, and the sum is 0, not the sample.
\<close>

theorem removeArtifactsSimple_exact_counterexample:
  "\<not> jeq (jadd (cleanSignal (removeArtifactsSimple [Fin (1 / 2 ^ 60), Fin 1] (Fin (1 / 2))) ! 0)
               (removedArtifacts (removeArtifactsSimple [Fin (1 / 2 ^ 60), Fin 1] (Fin (1 / 2))) ! 0))
         ([Fin (1 / 2 ^ 60), Fin 1] ! 0)"
  by (simp add: simple_defs round_num_small rs upt2 Let_def)

lemma example_signal_result:
  "removeArtifactsSimple [Fin 0, Fin 0, Fin 0, Fin 0, Fin 5] (Fin 1) =
     \<lparr>cleanSignal = [Fin 0, Fin 0, Fin 0, Fin 0, Fin (1 / 2)],
      components = [[Fin 0, Fin 0, Fin 0, Fin 0, Fin 5]],
      removedArtifacts = [Fin 0, Fin 0, Fin 0, Fin 0, Fin (9 / 2)],
      artifactIndices = [4]\<rparr>"
  by (simp add: simple_defs round_num_small upt5 Let_def)

theorem removeArtifactsSimple_reconstruction_witness:
  "(4 < length [Fin 0, Fin 0, Fin 0, Fin 0, Fin 5]
      \<and> [Fin 0, Fin 0, Fin 0, Fin 0, Fin 5] ! 4 = Fin 5 \<and> is_double 5
      \<and> is_artifact [Fin 0, Fin 0, Fin 0, Fin 0, Fin 5] (Fin 1) 4)
   \<and> removedArtifacts (removeArtifactsSimple [Fin 0, Fin 0, Fin 0, Fin 0, Fin 5] (Fin 1)) ! 4
         = jsub ([Fin 0, Fin 0, Fin 0, Fin 0, Fin 5] ! 4)
             (cleanSignal (removeArtifactsSimple [Fin 0, Fin 0, Fin 0, Fin 0, Fin 5] (Fin 1)) ! 4)
   \<and> cleanSignal (removeArtifactsSimple [Fin 0, Fin 0, Fin 0, Fin 0, Fin 5] (Fin 1)) ! 4
         = Fin (1 / 2)
   \<and> jadd (cleanSignal (removeArtifactsSimple [Fin 0, Fin 0, Fin 0, Fin 0, Fin 5] (Fin 1)) ! 4)
        (removedArtifacts (removeArtifactsSimple [Fin 0, Fin 0, Fin 0, Fin 0, Fin 5] (Fin 1)) ! 4)
         = Fin 5
   \<and> \<bar>5 - 5\<bar> \<le> (\<bar>5\<bar> + \<bar>1 / 2\<bar>) / 2 ^ 51 + (2::real) powi (- 1073)"
proof -
  have h1: "4 < length [Fin 0, Fin 0, Fin 0, Fin 0, Fin 5]" by simp
  have h2: "[Fin 0, Fin 0, Fin 0, Fin 0, Fin 5] ! 4 = Fin 5" by simp
  have h3: "is_double 5" using is_double_of_int[of 5] by simp
  have a: "is_artifact [Fin 0, Fin 0, Fin 0, Fin 0, Fin 5] (Fin 1) 4"
    by (simp add: is_artifact_def simple_defs round_num_small)
  have c: "cleanSignal (removeArtifactsSimple [Fin 0, Fin 0, Fin 0, Fin 0, Fin 5] (Fin 1)) ! 4
             = Fin (1 / 2)"
    by (simp add: example_signal_result)
  have t: "jadd (cleanSignal (removeArtifactsSimple [Fin 0, Fin 0, Fin 0, Fin 0, Fin 5] (Fin 1)) ! 4)
        (removedArtifacts (removeArtifactsSimple [Fin 0, Fin 0, Fin 0, Fin 0, Fin 5] (Fin 1)) ! 4)
         = Fin 5"
    by (simp add: example_signal_result round_num_small)
  note T = removeArtifactsSimple_reconstruction[OF h1 h2 h3, of "Fin 1"]
  from T have r: "removedArtifacts (removeArtifactsSimple [Fin 0, Fin 0, Fin 0, Fin 0, Fin 5] (Fin 1)) ! 4
         = jsub ([Fin 0, Fin 0, Fin 0, Fin 0, Fin 5] ! 4)
             (cleanSignal (removeArtifactsSimple [Fin 0, Fin 0, Fin 0, Fin 0, Fin 5] (Fin 1)) ! 4)"
    by blast
  from T c t have b: "\<bar>5 - 5\<bar> \<le> (\<bar>5\<bar> + \<bar>1 / 2\<bar>) / 2 ^ 51 + (2::real) powi (- 1073)"
    by blast
  from h1 h2 h3 a r c t b show ?thesis by blast
qed

theorem removeArtifactsSimple_unflagged_unchanged_witness:
  "(0 < length [Fin 0, Fin 0, Fin 0, Fin 0, Fin 5]
      \<and> \<not> is_artifact [Fin 0, Fin 0, Fin 0, Fin 0, Fin 5] (Fin 1) 0)
   \<and> cleanSignal (removeArtifactsSimple [Fin 0, Fin 0, Fin 0, Fin 0, Fin 5] (Fin 1)) ! 0 = Fin 0
   \<and> removedArtifacts (removeArtifactsSimple [Fin 0, Fin 0, Fin 0, Fin 0, Fin 5] (Fin 1)) ! 0 = Fin 0
   \<and> 0 \<notin> set (artifactIndices (removeArtifactsSimple [Fin 0, Fin 0, Fin 0, Fin 0, Fin 5] (Fin 1)))"
proof -
  have a: "\<not> is_artifact [Fin 0, Fin 0, Fin 0, Fin 0, Fin 5] (Fin 1) 0"
    by (simp add: is_artifact_def simple_defs round_num_small)
  show ?thesis
    using removeArtifactsSimple_unflagged_unchanged[of 0 "[Fin 0, Fin 0, Fin 0, Fin 0, Fin 5]" "Fin 1"] a
    by simp
qed

section \<open>Properties of the signal generation\<close>

lemma addSignals_step_length:
  "length (foldl (\<lambda>result signal.
              map (\<lambda>i. if i < length signal then jadd (result ! i) (signal ! i) else result ! i)
                [0..<length result]) init signals) = length init"
  by (induction signals arbitrary: init) simp_all

lemma length_addSignals: "length (addSignals signals) = foldr max (map length signals) 0"
  by (simp add: addSignals_def addSignals_step_length)

lemma generateSineWave_cases:
  "generateSineWave frequency amplitude dur rate phase =
     (if jgt (jfloor (jmul dur rate)) (Fin (2 ^ 32 - 1)) then Inl RangeError
      else Inr (projr (generateSineWave frequency amplitude dur rate phase)))"
  by (simp add: generateSineWave_def Let_def)

lemma generateSineWave_length:
  assumes "\<not> jgt (jfloor (jmul dur rate)) (Fin (2 ^ 32 - 1))"
  shows "\<exists>w. generateSineWave frequency amplitude dur rate phase = Inr w
           \<and> length w = loop_count (jfloor (jmul dur rate))"
  using assms by (simp add: generateSineWave_def Let_def)

lemma generateSineWave_error:
  assumes "jgt (jfloor (jmul dur rate)) (Fin (2 ^ 32 - 1))"
  shows "generateSineWave frequency amplitude dur rate phase = Inl RangeError"
  using assms by (simp add: generateSineWave_def Let_def)

lemma band_waves_length:
  assumes "\<not> jgt (jfloor (jmul dur rate)) (Fin (2 ^ 32 - 1))"
  shows "\<exists>w. generateAlphaWaves dur rate = Inr w \<and> length w = loop_count (jfloor (jmul dur rate))"
    and "\<exists>w. generateBetaWaves dur rate = Inr w \<and> length w = loop_count (jfloor (jmul dur rate))"
    and "\<exists>w. generateThetaWaves dur rate = Inr w \<and> length w = loop_count (jfloor (jmul dur rate))"
    and "\<exists>w. generateDeltaWaves dur rate = Inr w \<and> length w = loop_count (jfloor (jmul dur rate))"
    and "\<exists>w. generateGammaWaves dur rate = Inr w \<and> length w = loop_count (jfloor (jmul dur rate))"
  using assms
  by (simp_all add: generateAlphaWaves_def generateBetaWaves_def generateThetaWaves_def
      generateDeltaWaves_def generateGammaWaves_def generateSineWave_def Let_def ebind_def
      length_addSignals)

lemma band_waves_error:
  assumes "jgt (jfloor (jmul dur rate)) (Fin (2 ^ 32 - 1))"
  shows "generateAlphaWaves dur rate = Inl RangeError"
  using assms by (simp add: generateAlphaWaves_def generateSineWave_def Let_def ebind_def)

lemma generateCustomSignal_result:
  assumes "\<not> jgt (jfloor (jmul dur rate)) (Fin (2 ^ 32 - 1))"
  shows "\<exists>sig. generateCustomSignal params rnd dur rate = Inr sig
           \<and> length (data sig) = loop_count (jfloor (jmul dur rate))
           \<and> emotion sig = custom_emotion params
           \<and> sampleRate sig = rate \<and> duration sig = dur"
proof -
  from band_waves_length[OF assms] obtain a b t d g where
    w: "generateAlphaWaves dur rate = Inr a" "length a = loop_count (jfloor (jmul dur rate))"
       "generateBetaWaves dur rate = Inr b" "generateThetaWaves dur rate = Inr t"
       "generateDeltaWaves dur rate = Inr d" "generateGammaWaves dur rate = Inr g"
    by blast
  from generateSineWave_length[OF assms] obtain p where
    p: "generatePowerLineNoise dur rate (freq_num (powerNoiseFreq params)) (powerNoiseLevel params) = Inr p"
    unfolding generatePowerLineNoise_def by blast
  show ?thesis
    by (simp add: generateCustomSignal_def w p ebind_def Let_def)
qed

lemma generateCustomSignal_error:
  assumes "jgt (jfloor (jmul dur rate)) (Fin (2 ^ 32 - 1))"
  shows "generateCustomSignal params rnd dur rate = Inl RangeError"
  by (simp add: generateCustomSignal_def band_waves_error[OF assms] ebind_def)

lemma preset_signals_result:
  assumes "\<not> jgt (jfloor (jmul dur rate)) (Fin (2 ^ 32 - 1))"
  shows "\<exists>sig. generateHappySignal rnd dur rate = Inr sig
           \<and> length (data sig) = loop_count (jfloor (jmul dur rate)) \<and> emotion sig = Happy"
    and "\<exists>sig. generateNeutralSignal rnd dur rate = Inr sig
           \<and> length (data sig) = loop_count (jfloor (jmul dur rate)) \<and> emotion sig = Neutral"
    and "\<exists>sig. generateSadSignal rnd dur rate = Inr sig
           \<and> length (data sig) = loop_count (jfloor (jmul dur rate)) \<and> emotion sig = Sad"
proof -
  from band_waves_length[OF assms] obtain a b t d g where
    w: "generateAlphaWaves dur rate = Inr a" "length a = loop_count (jfloor (jmul dur rate))"
       "generateBetaWaves dur rate = Inr b" "generateThetaWaves dur rate = Inr t"
       "generateDeltaWaves dur rate = Inr d" "generateGammaWaves dur rate = Inr g"
    by blast
  have p: "\<exists>p. generatePowerLineNoise dur rate f l = Inr p" for f l
    using generateSineWave_length[OF assms] unfolding generatePowerLineNoise_def by blast
  show "\<exists>sig. generateHappySignal rnd dur rate = Inr sig
           \<and> length (data sig) = loop_count (jfloor (jmul dur rate)) \<and> emotion sig = Happy"
    using p[of "Fin 50" "lit 0.25"] by (auto simp: generateHappySignal_def w ebind_def Let_def)
  show "\<exists>sig. generateNeutralSignal rnd dur rate = Inr sig
           \<and> length (data sig) = loop_count (jfloor (jmul dur rate)) \<and> emotion sig = Neutral"
    using p[of "Fin 50" "lit 0.2"] by (auto simp: generateNeutralSignal_def w ebind_def Let_def)
  show "\<exists>sig. generateSadSignal rnd dur rate = Inr sig
           \<and> length (data sig) = loop_count (jfloor (jmul dur rate)) \<and> emotion sig = Sad"
    using p[of "Fin 50" "lit 0.3"] by (auto simp: generateSadSignal_def w ebind_def Let_def)
qed

lemma samples_count:
  assumes "jmul dur rate = Fin p" "p < 2 ^ 32"
  shows "\<not> jgt (jfloor (jmul dur rate)) (Fin (2 ^ 32 - 1))"
    and "loop_count (jfloor (jmul dur rate)) = nat \<lfloor>p\<rfloor>"
proof -
  have "\<lfloor>p\<rfloor> < 2 ^ 32" using assms(2) by (simp add: floor_less_iff)
  then have "\<lfloor>p\<rfloor> \<le> 2 ^ 32 - 1" by simp
  then have "real_of_int \<lfloor>p\<rfloor> \<le> real_of_int (2 ^ 32 - 1)"
    by (simp only: of_int_le_iff)
  then have "real_of_int \<lfloor>p\<rfloor> \<le> 2 ^ 32 - 1" by simp
  then show "\<not> jgt (jfloor (jmul dur rate)) (Fin (2 ^ 32 - 1))"
    by (simp add: assms(1) jgt_def)
  show "loop_count (jfloor (jmul dur rate)) = nat \<lfloor>p\<rfloor>"
    by (simp add: assms(1) loop_count_def)
qed

lemma lit_08: "lit 0.8 = Fin (3602879701896397 / 4503599627370496)"
  unfolding lit_def by (rule round_num_eval[of "- 1"]) (simp_all add: rne_def power_int_minus)

lemma lit_02: "lit 0.2 = Fin (3602879701896397 / 18014398509481984)"
  unfolding lit_def by (rule round_num_eval[of "- 3"]) (simp_all add: rne_def power_int_minus)

lemma lit_06: "lit 0.6 = Fin (5404319552844595 / 9007199254740992)"
  unfolding lit_def by (rule round_num_eval[of "- 1"]) (simp_all add: rne_def power_int_minus)

lemma lit_05: "lit 0.5 = Fin (1 / 2)"
  unfolding lit_def by (rule round_num_eval[of "- 1"]) (simp_all add: rne_def power_int_minus)

lemmas lit_values = lit_08 lit_02 lit_06 lit_05 lit_08[simplified] lit_02[simplified]
  lit_06[simplified] lit_05[simplified]

text \<open>
  Claim C9.  A call of \<^verbatim>\<open>generateCustomSignal\<close> either asks for more samples than an array
  holds and ends in an error, or returns a signal whose label is \<open>Happy\<close> exactly when the
  alpha weight exceeds 0.8 and the gamma weight exceeds 0.2, otherwise \<open>Sad\<close> exactly when
  the theta weight exceeds 0.8 or the delta weight exceeds 0.6, otherwise \<open>Neutral\<close>.
\<close>

theorem generateCustomSignal_emotion:
  "if jgt (jfloor (jmul dur rate)) (Fin (2 ^ 32 - 1))
   then generateCustomSignal params rnd dur rate = Inl RangeError
   else \<exists>sig. generateCustomSignal params rnd dur rate = Inr sig
          \<and> (emotion sig = Happy \<longleftrightarrow>
               jgt (w_alpha params) (lit 0.8) \<and> jgt (w_gamma params) (lit 0.2))
          \<and> (emotion sig = Sad \<longleftrightarrow>
               \<not> (jgt (w_alpha params) (lit 0.8) \<and> jgt (w_gamma params) (lit 0.2))
               \<and> (jgt (w_theta params) (lit 0.8) \<or> jgt (w_delta params) (lit 0.6)))
          \<and> (emotion sig = Neutral \<longleftrightarrow>
               \<not> (jgt (w_alpha params) (lit 0.8) \<and> jgt (w_gamma params) (lit 0.2))
               \<and> \<not> (jgt (w_theta params) (lit 0.8) \<or> jgt (w_delta params) (lit 0.6)))"
proof (cases "jgt (jfloor (jmul dur rate)) (Fin (2 ^ 32 - 1))")
  case True
  then show ?thesis by (simp add: generateCustomSignal_error)
next
  case False
  from generateCustomSignal_result[OF False, of params rnd] obtain sig where
    sig: "generateCustomSignal params rnd dur rate = Inr sig" "emotion sig = custom_emotion params"
    by blast
  have "(custom_emotion params = Happy \<longleftrightarrow>
               jgt (w_alpha params) (lit 0.8) \<and> jgt (w_gamma params) (lit 0.2))
          \<and> (custom_emotion params = Sad \<longleftrightarrow>
               \<not> (jgt (w_alpha params) (lit 0.8) \<and> jgt (w_gamma params) (lit 0.2))
               \<and> (jgt (w_theta params) (lit 0.8) \<or> jgt (w_delta params) (lit 0.6)))
          \<and> (custom_emotion params = Neutral \<longleftrightarrow>
               \<not> (jgt (w_alpha params) (lit 0.8) \<and> jgt (w_gamma params) (lit 0.2))
               \<and> \<not> (jgt (w_theta params) (lit 0.8) \<or> jgt (w_delta params) (lit 0.6)))"
    unfolding custom_emotion_def by auto
  with sig False show ?thesis by simp
qed

lemma round_num_15_4: "round_num (15 / 4) = Fin (15 / 4)"
  by (rule round_num_eval[of 1]) (simp_all add: rne_def power_int_minus)

lemma product_15_4: "jmul (Fin (3 / 4)) (Fin 5) = Fin (15 / 4)"
  by (simp add: round_num_15_4)

theorem generateCustomSignal_emotion_witness:
  "\<not> jgt (jfloor (jmul (Fin (3 / 4)) (Fin 5))) (Fin (2 ^ 32 - 1))
   \<and> \<not> isl (generateCustomSignal example_params (\<lambda>i. Fin 0) (Fin (3 / 4)) (Fin 5))
   \<and> jgt (w_alpha example_params) (lit 0.8) \<and> jgt (w_gamma example_params) (lit 0.2)
   \<and> emotion (projr (generateCustomSignal example_params (\<lambda>i. Fin 0) (Fin (3 / 4)) (Fin 5))) = Happy"
proof -
  have c: "\<not> jgt (jfloor (jmul (Fin (3 / 4)) (Fin 5))) (Fin (2 ^ 32 - 1))"
    by (simp add: round_num_15_4 jgt_def)
  have a: "jgt (w_alpha example_params) (lit 0.8)" "jgt (w_gamma example_params) (lit 0.2)"
    by (simp_all add: example_params_def lit_values jgt_def)
  from generateCustomSignal_emotion[of "Fin (3 / 4)" "Fin 5" example_params "\<lambda>i. Fin 0"] c a
  obtain sig where "generateCustomSignal example_params (\<lambda>i. Fin 0) (Fin (3 / 4)) (Fin 5) = Inr sig"
    "emotion sig = Happy"
    by auto
  with c a show ?thesis by simp
qed

lemma jmul_nonneg:
  assumes "0 \<le> d" "0 \<le> r" "jmul (Fin d) (Fin r) = Fin p"
  shows "0 \<le> p"
proof -
  have "p = fl (d * r)" using assms(3) by (auto simp: round_num_def Let_def split: if_splits)
  moreover have "0 \<le> d * r" using assms(1,2) by simp
  ultimately show ?thesis by (simp add: fl_nonneg)
qed

lemma returned_length:
  assumes "jmul dur rate = Fin p" "0 \<le> p"
    "\<not> jgt (jfloor (jmul dur rate)) (Fin (2 ^ 32 - 1)) \<Longrightarrow>
       \<exists>s. gen = Inr s \<and> length (data s) = loop_count (jfloor (jmul dur rate))"
    "jgt (jfloor (jmul dur rate)) (Fin (2 ^ 32 - 1)) \<Longrightarrow> isl gen"
  shows "(\<forall>sig. gen = Inr sig \<longrightarrow> int (length (data sig)) = \<lfloor>p\<rfloor>)
       \<and> (p < 2 ^ 32 \<longrightarrow> (\<exists>sig. gen = Inr sig))"
proof -
  have l: "int (loop_count (jfloor (jmul dur rate))) = \<lfloor>p\<rfloor>"
    using assms(2) by (simp add: assms(1) loop_count_def)
  have 1: "int (length (data sig)) = \<lfloor>p\<rfloor>" if "gen = Inr sig" for sig
  proof (cases "jgt (jfloor (jmul dur rate)) (Fin (2 ^ 32 - 1))")
    case True
    from assms(4)[OF True] that show ?thesis by simp
  next
    case False
    from assms(3)[OF False] that l show ?thesis by auto
  qed
  have 2: "\<exists>sig. gen = Inr sig" if "p < 2 ^ 32"
    using assms(3)[OF samples_count(1)[OF assms(1) that]] by blast
  from 1 2 show ?thesis by blast
qed

lemma preset_signals_error:
  assumes "jgt (jfloor (jmul dur rate)) (Fin (2 ^ 32 - 1))"
  shows "isl (generateHappySignal rnd dur rate)" "isl (generateNeutralSignal rnd dur rate)"
    "isl (generateSadSignal rnd dur rate)"
  by (simp_all add: generateHappySignal_def generateNeutralSignal_def generateSadSignal_def
      band_waves_error[OF assms] ebind_def)

text \<open>
  Claim C3, as amended.  The duration and the sample rate are valid when neither is
  negative and their product \<^verbatim>\<open>duration * sampleRate\<close>, as computed, is a finite value
  \<open>p\<close>.  Then every custom signal and every preset signal that is returned has exactly
  \<open>\<lfloor>p\<rfloor>\<close> samples: the product is truncated, not rounded.  The signal is returned
  whenever \<open>p\<close> is below \<open>2 ^ 32\<close>.
\<close>

theorem synthesized_length:
  assumes "0 \<le> d" and "0 \<le> r" and "jmul (Fin d) (Fin r) = Fin p"
  shows "((\<forall>sig. generateCustomSignal params rnd (Fin d) (Fin r) = Inr sig
              \<longrightarrow> int (length (data sig)) = \<lfloor>p\<rfloor>)
          \<and> (p < 2 ^ 32 \<longrightarrow> (\<exists>sig. generateCustomSignal params rnd (Fin d) (Fin r) = Inr sig)))
       \<and> ((\<forall>sig. generateHappySignal rnd (Fin d) (Fin r) = Inr sig
              \<longrightarrow> int (length (data sig)) = \<lfloor>p\<rfloor>)
          \<and> (p < 2 ^ 32 \<longrightarrow> (\<exists>sig. generateHappySignal rnd (Fin d) (Fin r) = Inr sig)))
       \<and> ((\<forall>sig. generateNeutralSignal rnd (Fin d) (Fin r) = Inr sig
              \<longrightarrow> int (length (data sig)) = \<lfloor>p\<rfloor>)
          \<and> (p < 2 ^ 32 \<longrightarrow> (\<exists>sig. generateNeutralSignal rnd (Fin d) (Fin r) = Inr sig)))
       \<and> ((\<forall>sig. generateSadSignal rnd (Fin d) (Fin r) = Inr sig
              \<longrightarrow> int (length (data sig)) = \<lfloor>p\<rfloor>)
          \<and> (p < 2 ^ 32 \<longrightarrow> (\<exists>sig. generateSadSignal rnd (Fin d) (Fin r) = Inr sig)))"
proof -
  have p: "0 \<le> p" using assms by (rule jmul_nonneg)
  have c: "(\<forall>sig. generateCustomSignal params rnd (Fin d) (Fin r) = Inr sig
              \<longrightarrow> int (length (data sig)) = \<lfloor>p\<rfloor>)
          \<and> (p < 2 ^ 32 \<longrightarrow> (\<exists>sig. generateCustomSignal params rnd (Fin d) (Fin r) = Inr sig))"
    using generateCustomSignal_result[of "Fin d" "Fin r" params rnd]
      generateCustomSignal_error[of "Fin d" "Fin r" params rnd]
    by (intro returned_length[OF assms(3) p]) auto
  have h: "(\<forall>sig. generateHappySignal rnd (Fin d) (Fin r) = Inr sig
              \<longrightarrow> int (length (data sig)) = \<lfloor>p\<rfloor>)
          \<and> (p < 2 ^ 32 \<longrightarrow> (\<exists>sig. generateHappySignal rnd (Fin d) (Fin r) = Inr sig))"
    using preset_signals_result(1)[of "Fin d" "Fin r" rnd] preset_signals_error(1)[of "Fin d" "Fin r" rnd]
    by (intro returned_length[OF assms(3) p]) auto
  have n: "(\<forall>sig. generateNeutralSignal rnd (Fin d) (Fin r) = Inr sig
              \<longrightarrow> int (length (data sig)) = \<lfloor>p\<rfloor>)
          \<and> (p < 2 ^ 32 \<longrightarrow> (\<exists>sig. generateNeutralSignal rnd (Fin d) (Fin r) = Inr sig))"
    using preset_signals_result(2)[of "Fin d" "Fin r" rnd] preset_signals_error(2)[of "Fin d" "Fin r" rnd]
    by (intro returned_length[OF assms(3) p]) auto
  have s: "(\<forall>sig. generateSadSignal rnd (Fin d) (Fin r) = Inr sig
              \<longrightarrow> int (length (data sig)) = \<lfloor>p\<rfloor>)
          \<and> (p < 2 ^ 32 \<longrightarrow> (\<exists>sig. generateSadSignal rnd (Fin d) (Fin r) = Inr sig))"
    using preset_signals_result(3)[of "Fin d" "Fin r" rnd] preset_signals_error(3)[of "Fin d" "Fin r" rnd]
    by (intro returned_length[OF assms(3) p]) auto
  show ?thesis by (rule conjI[OF c conjI[OF h conjI[OF n s]]])
qed

theorem synthesized_length_witness:
  "(0::real) \<le> 3 / 4 \<and> (0::real) \<le> 5 \<and> jmul (Fin (3 / 4)) (Fin 5) = Fin (15 / 4)
   \<and> (15 / 4 :: real) < 2 ^ 32
   \<and> \<not> isl (generateCustomSignal example_params (\<lambda>i. Fin 0) (Fin (3 / 4)) (Fin 5))
   \<and> int (length (data (projr (generateCustomSignal example_params (\<lambda>i. Fin 0) (Fin (3 / 4)) (Fin 5)))))
       = 3
   \<and> \<not> isl (generateSadSignal (\<lambda>i. Fin 0) (Fin (3 / 4)) (Fin 5))
   \<and> int (length (data (projr (generateSadSignal (\<lambda>i. Fin 0) (Fin (3 / 4)) (Fin 5))))) = 3"
proof -
  have a: "(0::real) \<le> 3 / 4" "(0::real) \<le> 5" by simp_all
  have b: "(15 / 4 :: real) < 2 ^ 32" by simp
  have f: "\<lfloor>15 / 4 :: real\<rfloor> = 3" by simp
  note t = synthesized_length[OF a product_15_4, of example_params "\<lambda>i. Fin 0", unfolded f]
  from t b obtain c where
    c: "generateCustomSignal example_params (\<lambda>i. Fin 0) (Fin (3 / 4)) (Fin 5) = Inr c" by blast
  from t b obtain s where
    s: "generateSadSignal (\<lambda>i. Fin 0) (Fin (3 / 4)) (Fin 5) = Inr s" by blast
  from t c have "int (length (data c)) = 3" by blast
  moreover from t s have "int (length (data s)) = 3" by blast
  ultimately show ?thesis using a b product_15_4 by (simp add: c s)
qed

text \<open>
  Claim C3 as stated fails: 0.75 seconds at 5 Hz give \<open>\<lfloor>3.75\<rfloor> = 3\<close> samples, and
  \<open>round 3.75 = 4\<close>.
\<close>

theorem synthesized_length_round_counterexample:
  "\<not> isl (generateCustomSignal example_params (\<lambda>i. Fin 0) (Fin (3 / 4)) (Fin 5))
   \<and> length (data (projr (generateCustomSignal example_params (\<lambda>i. Fin 0) (Fin (3 / 4)) (Fin 5))))
       \<noteq> nat (round (3 / 4 * 5 :: real))"
proof -
  have c: "\<not> jgt (jfloor (jmul (Fin (3 / 4)) (Fin 5))) (Fin (2 ^ 32 - 1))"
    by (simp add: round_num_15_4 jgt_def)
  have l: "loop_count (jfloor (jmul (Fin (3 / 4)) (Fin 5))) = 3"
    by (simp add: round_num_15_4 loop_count_def)
  have r: "nat (round (3 / 4 * 5 :: real)) = 4" by (simp add: round_def)
  from generateCustomSignal_result[OF c, of example_params "\<lambda>i. Fin 0"] obtain sig where
    "generateCustomSignal example_params (\<lambda>i. Fin 0) (Fin (3 / 4)) (Fin 5) = Inr sig"
    "length (data sig) = 3"
    unfolding l by blast
  then show ?thesis unfolding r by simp
qed

section \<open>Properties of the filters\<close>

lemma length_iir_step: "length (iir_step signal b a out i) = length out"
  by (simp add: iir_step_def Let_def)

lemma length_foldl_iir_step:
  "length (foldl (iir_step signal b a) out xs) = length out"
  by (induction xs arbitrary: out) (simp_all add: length_iir_step)

lemma length_applyIIRFilter: "length (applyIIRFilter signal b a) = length signal"
  by (simp add: applyIIRFilter_def length_foldl_iir_step)

lemma length_filtfilt: "length (filtfilt signal b a) = length signal"
  by (simp add: filtfilt_def length_applyIIRFilter)

lemma length_lowPassFilter: "length (lowPassFilter signal cutoffFreq rate) = length signal"
  by (simp add: lowPassFilter_def length_filtfilt split: prod.split)

lemma length_highPassFilter: "length (highPassFilter signal cutoffFreq rate) = length signal"
  by (simp add: highPassFilter_def)

text \<open>
  Claim C8.  The high-pass filter returns, sample by sample, the signal minus its
  low-pass filtered version (which has the length of the signal), and the band-pass
  filter is the low-pass filter at the high cutoff applied to the high-pass filter at the
  low cutoff.
\<close>

theorem highPass_bandPass_composition:
  assumes "i < length signal"
  shows "length (lowPassFilter signal cutoffFreq rate) = length signal
       \<and> length (highPassFilter signal cutoffFreq rate) = length signal
       \<and> highPassFilter signal cutoffFreq rate ! i
           = jsub (signal ! i) (lowPassFilter signal cutoffFreq rate ! i)
       \<and> bandPassFilter signal lowFreq highFreq rate
           = lowPassFilter (highPassFilter signal lowFreq rate) highFreq rate"
  using assms
  by (simp add: length_lowPassFilter length_highPassFilter highPassFilter_def bandPassFilter_def)

theorem highPass_bandPass_composition_witness:
  "1 < length [Fin 1, Fin 2, Fin 3]
   \<and> length (highPassFilter [Fin 1, Fin 2, Fin 3] (Fin 10) (Fin 256)) = 3
   \<and> highPassFilter [Fin 1, Fin 2, Fin 3] (Fin 10) (Fin 256) ! 1
       = jsub (Fin 2) (lowPassFilter [Fin 1, Fin 2, Fin 3] (Fin 10) (Fin 256) ! 1)
   \<and> bandPassFilter [Fin 1, Fin 2, Fin 3] (Fin (1 / 2)) (Fin 45) (Fin 256)
       = lowPassFilter (highPassFilter [Fin 1, Fin 2, Fin 3] (Fin (1 / 2)) (Fin 256)) (Fin 45) (Fin 256)"
proof -
  have h: "1 < length [Fin 1, Fin 2, Fin 3]" by simp
  from highPass_bandPass_composition[OF h, of "Fin 10" "Fin 256" "Fin (1 / 2)" "Fin 45"]
  show ?thesis by simp
qed

section \<open>A cutoff above the Nyquist frequency\<close>







lemma upt3: "[0..<3] = [0, 1, 2]"
  by (simp add: upt_rec)

lemma applyIIRFilter_single:
  "applyIIRFilter [x] [b0, b1, b2] [a0, a1, a2] = [jadd (Fin 0) (jmul b0 x)]"
  by (simp add: applyIIRFilter_def iir_step_def upt3 upt_rec)

lemma not_inside: "1 \<le> \<bar>a2\<bar> \<Longrightarrow> \<not> poles_inside_unit_circle [a0, a1, Fin a2]"
  by (cases a0; cases a1) (simp_all add: poles_inside_unit_circle_def)




lemma notchFilter_filtfilt:
  "notchFilter signal notchFreq rate bandwidth
     = filtfilt signal (fst (notchCoeffs notchFreq rate bandwidth))
         (snd (notchCoeffs notchFreq rate bandwidth))"
  by (simp add: notchFilter_def notchCoeffs_def Let_def)



lemma filtfilt_single:
  "filtfilt [x] [b0, b1, b2] [a0, a1, a2] = [jadd (Fin 0) (jmul b0 (jadd (Fin 0) (jmul b0 x)))]"
  by (simp add: filtfilt_def applyIIRFilter_single)



lemma sin_near_three_half_pi:
  "- 1 \<le> sin (3 * pi / 2 + d)" "sin (3 * pi / 2 + d) \<le> - 1 + \<bar>d\<bar>"
proof -
  have s: "sin (3 * pi / 2) = - 1" using sin_3over2_pi by (simp add: field_simps)
  have c: "cos (3 * pi / 2) = 0" using cos_3over2_pi by (simp add: field_simps)
  have e: "sin (3 * pi / 2 + d) = - cos d" unfolding sin_add s c by simp
  show "- 1 \<le> sin (3 * pi / 2 + d)" unfolding e by simp
  have h: "\<bar>sin (d / 2)\<bar> \<le> \<bar>d / 2\<bar>" by (rule abs_sin_x_le_abs_x)
  have "(sin (d / 2))\<^sup>2 = \<bar>sin (d / 2)\<bar> * \<bar>sin (d / 2)\<bar>"
    by (simp add: power2_eq_square)
  moreover have "\<bar>sin (d / 2)\<bar> * \<bar>sin (d / 2)\<bar> \<le> \<bar>d / 2\<bar> * 1"
    by (rule mult_mono[OF h]) simp_all
  ultimately have "(sin (d / 2))\<^sup>2 \<le> \<bar>d\<bar> / 2" by simp
  moreover have "cos d = 1 - 2 * (sin (d / 2))\<^sup>2"
    using cos_double_sin[of "d / 2"] by simp
  ultimately show "sin (3 * pi / 2 + d) \<le> - 1 + \<bar>d\<bar>" unfolding e by simp
qed

lemma notch_angle_error:
  fixes x a2 a1 p :: real
  assumes "\<bar>x - a2 / 256\<bar> \<le> (2 ^ 3 + 1) / 2 ^ 53" "\<bar>a2 - a1 * 192\<bar> \<le> (2 ^ 11 + 1) / 2 ^ 53"
    "\<bar>a1 - 2 * p\<bar> \<le> (2 ^ 3 + 1) / 2 ^ 53" "\<bar>p - pi\<bar> \<le> 5 / 2 ^ 53"
  shows "\<bar>x - 3 * pi / 2\<bar> \<le> 1 / 2 ^ 40"
proof (rule abs_leI)
  note 1 = abs_le_D1[OF assms(1)] abs_le_D2[OF assms(1)]
  note 2 = abs_le_D1[OF assms(2)] abs_le_D2[OF assms(2)]
  note 3 = abs_le_D1[OF assms(3)] abs_le_D2[OF assms(3)]
  note 4 = abs_le_D1[OF assms(4)] abs_le_D2[OF assms(4)]
  show "x - 3 * pi / 2 \<le> 1 / 2 ^ 40" using 1 2 3 4 by simp
  show "- (x - 3 * pi / 2) \<le> 1 / 2 ^ 40" using 1 2 3 4 by simp
qed

lemma notch_angle:
  "\<exists>x. jdiv (jmul (jmul (Fin 2) js_PI) (Fin 192)) (Fin 256) = Fin x \<and> \<bar>x - 3 * pi / 2\<bar> \<le> 1 / 2 ^ 40"
proof -
  obtain p where p: "js_PI = Fin p" "\<bar>p - pi\<bar> \<le> 5 / 2 ^ 53" and p4: "\<bar>p\<bar> \<le> 4"
    using js_PI_near by blast
  have p3: "\<bar>2 * p\<bar> \<le> 2 ^ 3" using p4 by (simp add: abs_mult)
  from round_num_near[OF this] obtain a1
    where a1: "round_num (2 * p) = Fin a1" "\<bar>a1 - 2 * p\<bar> \<le> (2 ^ 3 + 1) / 2 ^ 53"
    by auto
  have "\<bar>a1\<bar> \<le> 2 ^ 3" using round_num_bounded[OF p3] a1(1) by simp
  then have p11: "\<bar>a1 * 192\<bar> \<le> 2 ^ 11" by (simp add: abs_mult)
  from round_num_near[OF this] obtain a2
    where a2: "round_num (a1 * 192) = Fin a2" "\<bar>a2 - a1 * 192\<bar> \<le> (2 ^ 11 + 1) / 2 ^ 53"
    by auto
  have "\<bar>a2\<bar> \<le> 2 ^ 11" using round_num_bounded[OF p11] a2(1) by simp
  then have "\<bar>a2 / 256\<bar> \<le> 2 ^ 3" by simp
  from round_num_near[OF this] obtain x
    where x: "round_num (a2 / 256) = Fin x" "\<bar>x - a2 / 256\<bar> \<le> (2 ^ 3 + 1) / 2 ^ 53"
    by auto
  have "\<bar>x - 3 * pi / 2\<bar> \<le> 1 / 2 ^ 40"
    using x(2) a2(2) a1(2) p(2) by (rule notch_angle_error)
  moreover have "jdiv (jmul (jmul (Fin 2) js_PI) (Fin 192)) (Fin 256) = Fin x"
    unfolding p(1) by (simp add: a1(1) a2(1) x(1))
  ultimately show ?thesis by blast
qed

lemma notch_sin:
  "\<exists>s. jsin (jdiv (jmul (jmul (Fin 2) js_PI) (Fin 192)) (Fin 256)) = Fin s
       \<and> - 1 \<le> s \<and> s \<le> - (1023 / 1024)"
proof -
  obtain x where x: "jdiv (jmul (jmul (Fin 2) js_PI) (Fin 192)) (Fin 256) = Fin x"
      "\<bar>x - 3 * pi / 2\<bar> \<le> 1 / 2 ^ 40"
    using notch_angle by blast
  define d where "d = x - 3 * pi / 2"
  have d: "\<bar>d\<bar> \<le> 1 / 2 ^ 40" using x(2) by (simp add: d_def)
  have e: "3 * pi / 2 + d = x" by (simp add: d_def)
  have lo: "- (1024 / 1024) \<le> sin x" using sin_near_three_half_pi(1)[of d] unfolding e by simp
  have "sin x \<le> - 1 + \<bar>d\<bar>" using sin_near_three_half_pi(2)[of d] unfolding e .
  moreover have "- 1 + \<bar>d\<bar> \<le> - (1023 / 1024)" using d by simp
  ultimately have hi: "sin x \<le> - (1023 / 1024)" by (rule order_trans)
  from between_ratio[where m = "- 1024" and n = "- 1023" and k = 10, OF _ _ _ _ _ lo hi]
  obtain s where s: "round_num (sin x) = Fin s" "- (1024 / 1024) \<le> s" "s \<le> - (1023 / 1024)" by auto
  have "jsin (jdiv (jmul (jmul (Fin 2) js_PI) (Fin 192)) (Fin 256)) = Fin s"
    unfolding x(1) by (simp add: s(1))
  with s(2,3) show ?thesis by auto
qed

lemma notchCoeffs_above_nyquist:
  "\<exists>b0 b1 b2 a1 a2. notchCoeffs (Fin 192) (Fin 256) (Fin 2) = ([Fin b0, b1, b2], [Fin 1, a1, Fin a2])
     \<and> 257 / 256 \<le> b0 \<and> b0 \<le> 258 / 256 \<and> 1 \<le> a2"
proof -
  obtain s where s: "jsin (jdiv (jmul (jmul (Fin 2) js_PI) (Fin 192)) (Fin 256)) = Fin s"
      "- 1 \<le> s" "s \<le> - (1023 / 1024)"
    using notch_sin by blast
  have q: "jdiv (Fin 192) (Fin 2) = Fin 96" by (simp add: round_num_small)
  have q2: "jmul (Fin 2) (Fin 96) = Fin 192" by (simp add: round_num_small)
  have alb: "- (6 / 1024) \<le> s / 192" "s / 192 \<le> - (5 / 1024)" using s(2,3) by simp_all
  from between_ratio[where m = "- 6" and n = "- 5" and k = 10, OF _ _ _ _ _ alb]
  obtain al where al: "round_num (s / 192) = Fin al" "- (6 / 1024) \<le> al" "al \<le> - (5 / 1024)"
    by auto
  have jal: "jdiv (Fin s) (Fin 192) = Fin al" by (simp add: al(1))
  have a0b: "1018 / 1024 \<le> 1 + al" "1 + al \<le> 1019 / 1024" using al(2,3) by simp_all
  from between_ratio[where m = 1018 and n = 1019 and k = 10, OF _ _ _ _ _ a0b]
  obtain a0 where a0: "round_num (1 + al) = Fin a0" "1018 / 1024 \<le> a0" "a0 \<le> 1019 / 1024" by auto
  have ja0: "jadd (Fin 1) (Fin al) = Fin a0" by (simp add: a0(1))
  have a00: "a0 \<noteq> 0" using a0(2) by simp
  have one: "(1024 / 1024 :: real) \<le> 1" "(1::real) \<le> 1024 / 1024" by simp_all
  have b0l: "(1024 / 1024) / (1019 / 1024) \<le> 1 / a0"
    by (rule div_between(1)[OF _ one _ a0(2,3)]) simp_all
  have b0u: "1 / a0 \<le> (1024 / 1024) / (1018 / 1024)"
    by (rule div_between(2)[OF _ one _ a0(2,3)]) simp_all
  have b0b: "257 / 256 \<le> 1 / a0" "1 / a0 \<le> 258 / 256"
    by (rule order_trans[OF _ b0l], simp, rule order_trans[OF b0u], simp)
  from between_ratio[where m = 257 and n = 258 and k = 8, OF _ _ _ _ _ b0b]
  obtain b0 where b0: "round_num (1 / a0) = Fin b0" "257 / 256 \<le> b0" "b0 \<le> 258 / 256" by auto
  have jb0: "jdiv (Fin 1) (Fin a0) = Fin b0" using a00 by (simp add: b0(1))
  have a2b: "1029 / 1024 \<le> 1 - al" "1 - al \<le> 1030 / 1024" using al(2,3) by simp_all
  from between_ratio[where m = 1029 and n = 1030 and k = 10, OF _ _ _ _ _ a2b]
  obtain c2 where c2: "round_num (1 - al) = Fin c2" "1029 / 1024 \<le> c2" "c2 \<le> 1030 / 1024" by auto
  have jc2: "jsub (Fin 1) (Fin al) = Fin c2" by (simp add: jsub_def c2(1))
  have a2l: "(1029 / 1024) / (1019 / 1024) \<le> c2 / a0"
    by (rule div_between(1)[OF _ c2(2,3) _ a0(2,3)]) simp_all
  have a2u: "c2 / a0 \<le> (1030 / 1024) / (1018 / 1024)"
    by (rule div_between(2)[OF _ c2(2,3) _ a0(2,3)]) simp_all
  have a2b': "1 \<le> c2 / a0" "c2 / a0 \<le> 2"
    by (rule order_trans[OF _ a2l], simp, rule order_trans[OF a2u], simp)
  from between_ratio[where m = 1 and n = 2 and k = 0, OF _ _ _ _ _ a2b']
  obtain a2 where a2: "round_num (c2 / a0) = Fin a2" "1 \<le> a2" "a2 \<le> 2" by auto
  have ja2: "jdiv (Fin c2) (Fin a0) = Fin a2" using a00 by (simp add: a2(1))
  have "notchCoeffs (Fin 192) (Fin 256) (Fin 2) =
          ([Fin b0,
            jdiv (jmul (Fin (- 2)) (jcos (jdiv (jmul (jmul (Fin 2) js_PI) (Fin 192)) (Fin 256)))) (Fin a0),
            Fin b0],
           [Fin 1,
            jdiv (jmul (Fin (- 2)) (jcos (jdiv (jmul (jmul (Fin 2) js_PI) (Fin 192)) (Fin 256)))) (Fin a0),
            Fin a2])"
    unfolding notchCoeffs_def Let_def s(1) q q2 jal ja0 jb0 jc2 ja2 ..
  with b0(2,3) a2(2) show ?thesis by blast
qed

lemma double_pass_notch:
  assumes "257 / 256 \<le> b0" "b0 \<le> 258 / 256"
  shows "\<exists>y. jadd (Fin 0) (jmul (Fin b0) (jadd (Fin 0) (jmul (Fin b0) (Fin 1)))) = Fin y
           \<and> 66049 / 65536 \<le> y"
proof -
  from between_ratio[where m = 257 and n = 258 and k = 8, OF _ _ _ _ _ assms]
  obtain y1 where y1: "round_num b0 = Fin y1" "257 / 256 \<le> y1" "y1 \<le> 258 / 256" by auto
  from between_ratio[where m = 257 and n = 258 and k = 8, OF _ _ _ _ _ y1(2,3)]
  obtain y2 where y2: "round_num y1 = Fin y2" "257 / 256 \<le> y2" "y2 \<le> 258 / 256" by auto
  have l: "(257 / 256) * (257 / 256) \<le> b0 * y2"
    by (rule mult_between(1)[OF _ assms _ y2(2,3)]) simp_all
  have u: "b0 * y2 \<le> (258 / 256) * (258 / 256)"
    by (rule mult_between(2)[OF _ assms _ y2(2,3)]) simp_all
  have b: "66049 / 65536 \<le> b0 * y2" "b0 * y2 \<le> 66564 / 65536"
    by (rule order_trans[OF _ l], simp, rule order_trans[OF u], simp)
  from between_ratio[where m = 66049 and n = 66564 and k = 16, OF _ _ _ _ _ b]
  obtain y3 where y3: "round_num (b0 * y2) = Fin y3" "66049 / 65536 \<le> y3" "y3 \<le> 66564 / 65536"
    by auto
  from between_ratio[where m = 66049 and n = 66564 and k = 16, OF _ _ _ _ _ y3(2,3)]
  obtain y4 where y4: "round_num y3 = Fin y4" "66049 / 65536 \<le> y4" "y4 \<le> 66564 / 65536" by auto
  have "jadd (Fin 0) (jmul (Fin b0) (jadd (Fin 0) (jmul (Fin b0) (Fin 1)))) = Fin y4"
    by (simp add: y1(1) y2(1) y3(1) y4(1))
  with y4(2) show ?thesis by blast
qed

text \<open>
  The notch filter fares the same.  A notch at 192 Hz at a sample rate of 256 Hz, with the
  bandwidth 2 of the pipeline, has \<open>alpha\<close> about \<open>- 1 / 192\<close>, so the normalised
  coefficient \<open>a2 / a0\<close> is at least 1 and the poles are not inside the unit circle; the
  one-sample signal \<open>[1]\<close> comes back as a value of at least \<open>66049 / 65536\<close>.
\<close>

lemma notchFilter_above_nyquist:
  "\<not> poles_inside_unit_circle (snd (notchCoeffs (Fin 192) (Fin 256) (Fin 2)))
   \<and> notchFilter [Fin 1] (Fin 192) (Fin 256) (Fin 2) \<noteq> [Fin 1]"
proof -
  obtain b0 b1 b2 a1 a2 where c:
      "notchCoeffs (Fin 192) (Fin 256) (Fin 2) = ([Fin b0, b1, b2], [Fin 1, a1, Fin a2])"
      "257 / 256 \<le> b0" "b0 \<le> 258 / 256" "1 \<le> a2"
    using notchCoeffs_above_nyquist by blast
  have "1 \<le> \<bar>a2\<bar>" using c(4) by simp
  then have "\<not> poles_inside_unit_circle [Fin 1, a1, Fin a2]" by (rule not_inside)
  then have 1: "\<not> poles_inside_unit_circle (snd (notchCoeffs (Fin 192) (Fin 256) (Fin 2)))"
    by (simp add: c(1))
  obtain y where y: "jadd (Fin 0) (jmul (Fin b0) (jadd (Fin 0) (jmul (Fin b0) (Fin 1)))) = Fin y"
      "66049 / 65536 \<le> y"
    using double_pass_notch[OF c(2,3)] by blast
  have "notchFilter [Fin 1] (Fin 192) (Fin 256) (Fin 2) = [Fin y]"
    unfolding notchFilter_filtfilt c(1) fst_conv snd_conv filtfilt_single y(1) ..
  moreover have "y \<noteq> 1" using y(2) by simp
  ultimately have "notchFilter [Fin 1] (Fin 192) (Fin 256) (Fin 2) \<noteq> [Fin 1]" by simp
  with 1 show ?thesis by blast
qed


section \<open>Properties of the spectrum and the band powers\<close>

lemma js_PI_Fin: "\<exists>p. js_PI = Fin p \<and> \<bar>p\<bar> \<le> 2 ^ 2"
proof -
  have "\<bar>pi\<bar> \<le> 2 ^ 2" using pi_less_4 pi_gt_zero by simp
  from round_num_bounded[OF this] show ?thesis by (simp add: js_PI_def)
qed

lemma jmul_bounded:
  assumes "\<bar>a\<bar> \<le> 2 ^ i" "\<bar>b\<bar> \<le> 2 ^ j" "i + j < 1024"
  shows "\<exists>c. jmul (Fin a) (Fin b) = Fin c \<and> \<bar>c\<bar> \<le> 2 ^ (i + j)"
proof -
  have "\<bar>a * b\<bar> \<le> 2 ^ i * 2 ^ j"
    unfolding abs_mult using assms(1,2) by (intro mult_mono) auto
  then have "\<bar>a * b\<bar> \<le> 2 ^ (i + j)" by (simp add: power_add)
  from round_num_bounded[OF this assms(3)] show ?thesis by simp
qed

lemma nat_bounded: "n < 2 ^ 32 \<Longrightarrow> \<bar>real n\<bar> \<le> 2 ^ 32"
proof -
  assume "n < 2 ^ 32"
  then have "real n < real (2 ^ 32)" by (simp only: of_nat_less_iff)
  then show ?thesis by simp
qed

lemma dft_angle_Fin:
  assumes "k < 2 ^ 32" "t < 2 ^ 32" "0 < n"
  shows "\<exists>x. jdiv (jmul (jmul (jmul (Fin 2) js_PI) (num_of_nat k)) (num_of_nat t)) (num_of_nat n) = Fin x"
proof -
  obtain p where p: "js_PI = Fin p" "\<bar>p\<bar> \<le> 2 ^ 2" using js_PI_Fin by blast
  have "\<bar>2::real\<bar> \<le> 2 ^ 1" by simp
  from jmul_bounded[OF this p(2)] obtain c1 where
    c1: "jmul (Fin 2) (Fin p) = Fin c1" "\<bar>c1\<bar> \<le> 2 ^ 3" by auto
  from jmul_bounded[OF c1(2) nat_bounded[OF assms(1)]] obtain c2 where
    c2: "jmul (Fin c1) (Fin (real k)) = Fin c2" "\<bar>c2\<bar> \<le> 2 ^ 35" by auto
  from jmul_bounded[OF c2(2) nat_bounded[OF assms(2)]] obtain c3 where
    c3: "jmul (Fin c2) (Fin (real t)) = Fin c3" "\<bar>c3\<bar> \<le> 2 ^ 67" by auto
  have "1 \<le> real n" using assms(3) by simp
  then have "\<bar>c3\<bar> / real n \<le> \<bar>c3\<bar> / 1"
    by (intro divide_left_mono) auto
  then have "\<bar>c3 / real n\<bar> \<le> \<bar>c3\<bar>" by simp
  then have "\<bar>c3 / real n\<bar> \<le> 2 ^ 67" using c3(2) by linarith
  from round_num_bounded(1)[OF this] have "round_num (c3 / real n) = Fin (fl (c3 / real n))" by simp
  then show ?thesis
    unfolding num_of_nat_def p(1) c1(1) c2(1) c3(1) using assms(3) by simp
qed

lemma jcos_Fin: "\<exists>c. round_num (cos x) = Fin c"
proof -
  have "\<bar>cos x\<bar> \<le> 2 ^ 0" by simp
  from round_num_bounded(1)[OF this] show ?thesis by simp
qed

lemma jsin_Fin: "\<exists>c. round_num (sin x) = Fin c"
proof -
  have "\<bar>sin x\<bar> \<le> 2 ^ 0" by simp
  from round_num_bounded(1)[OF this] show ?thesis by simp
qed

lemma foldl_fixed:
  assumes "\<And>x. x \<in> set xs \<Longrightarrow> f s x = s"
  shows "foldl f s xs = s"
  using assms by (induction xs) simp_all

lemma dft_sums_zero:
  assumes "n < 2 ^ 32" "k < 2 ^ 32"
  shows "dft_sums (replicate n (Fin 0)) k = (Fin 0, Fin 0)"
  unfolding dft_sums_def
proof (rule foldl_fixed)
  fix t assume "t \<in> set [0..<length (replicate n (Fin 0))]"
  then have t: "t < n" by simp
  then have t32: "t < 2 ^ 32" and n0: "0 < n" using assms(1) by auto
  from dft_angle_Fin[OF assms(2) t32 n0] obtain x where
    x: "jdiv (jmul (jmul (jmul (Fin 2) js_PI) (num_of_nat k)) (num_of_nat t)) (num_of_nat n) = Fin x"
    by blast
  obtain c s where cs: "round_num (cos x) = Fin c" "round_num (sin x) = Fin s"
    using jcos_Fin jsin_Fin by blast
  show "(case (Fin 0, Fin 0) of (re, im) \<Rightarrow> \<lambda>t.
           let angle = jdiv (jmul (jmul (jmul (Fin 2) js_PI) (num_of_nat k)) (num_of_nat t))
                         (num_of_nat (length (replicate n (Fin 0))))
           in (jadd re (jmul (replicate n (Fin 0) ! t) (jcos angle)),
               jsub im (jmul (replicate n (Fin 0) ! t) (jsin angle)))) t = (Fin 0, Fin 0)"
    using t by (simp add: x cs round_num_0 jsub_def)
qed

lemma dft_magnitude_zero:
  assumes "n < 2 ^ 32" "k < 2 ^ 32" "0 < n"
  shows "dft_magnitude (replicate n (Fin 0)) k = Fin 0"
  using assms(3) by (simp add: dft_magnitude_def dft_sums_zero[OF assms(1,2)] round_num_0 num_of_nat_def)

lemma computeFFT_zero:
  assumes "n < 2 ^ 32"
  shows "snd (computeFFT (replicate n (Fin 0)) rate) = replicate (n div 2) (Fin 0)"
proof -
  have "map (dft_magnitude (replicate n (Fin 0))) [0..<n div 2] = replicate (n div 2) (Fin 0)"
  proof (rule nth_equalityI)
    show "length (map (dft_magnitude (replicate n (Fin 0))) [0..<n div 2])
            = length (replicate (n div 2) (Fin 0))" by simp
    fix i assume "i < length (map (dft_magnitude (replicate n (Fin 0))) [0..<n div 2])"
    then have i: "i < n div 2" by simp
    then have "i < 2 ^ 32" "0 < n" using assms by auto
    then show "map (dft_magnitude (replicate n (Fin 0))) [0..<n div 2] ! i
                 = replicate (n div 2) (Fin 0) ! i"
      using i dft_magnitude_zero[OF assms] by simp
  qed
  then show ?thesis by (simp add: computeFFT_def Let_def)
qed

lemma band_sums_Suc:
  "band_sums fr mg (Suc m) = band_step fr mg (band_sums fr mg m) m"
  by (simp add: band_sums_def)

lemma band_accumulate:
  assumes sum_step: "\<And>s i. sum_f (step s i) = (if P i then jadd (sum_f s) (pw i) else sum_f s)"
    and cnt_step: "\<And>s i. cnt_f (step s i) = (if P i then cnt_f s + 1 else cnt_f s)"
    and init: "sum_f s0 = Fin 0" "cnt_f s0 = (0::nat)"
  shows "sum_f (foldl step s0 [0..<m]) = foldl jadd (Fin 0) (map pw (filter P [0..<m]))
       \<and> cnt_f (foldl step s0 [0..<m]) = length (filter P [0..<m])"
  by (induction m) (simp_all add: init sum_step cnt_step)

lemma band_step_delta:
  "deltaSum (band_step fr mg s i) =
     (if jge (fr ! i) (lit 0.5) \<and> jlt (fr ! i) (Fin 4)
      then jadd (deltaSum s) (jmul (mg ! i) (mg ! i)) else deltaSum s)"
  "deltaCount (band_step fr mg s i) =
     (if jge (fr ! i) (lit 0.5) \<and> jlt (fr ! i) (Fin 4) then deltaCount s + 1 else deltaCount s)"
  by (cases "fr ! i"; simp add: band_step_def Let_def lit_values jge_def)+

lemma band_step_theta:
  "thetaSum (band_step fr mg s i) =
     (if jge (fr ! i) (Fin 4) \<and> jlt (fr ! i) (Fin 8)
      then jadd (thetaSum s) (jmul (mg ! i) (mg ! i)) else thetaSum s)"
  "thetaCount (band_step fr mg s i) =
     (if jge (fr ! i) (Fin 4) \<and> jlt (fr ! i) (Fin 8) then thetaCount s + 1 else thetaCount s)"
  by (cases "fr ! i"; simp add: band_step_def Let_def lit_values jge_def)+

lemma band_step_alpha:
  "alphaSum (band_step fr mg s i) =
     (if jge (fr ! i) (Fin 8) \<and> jlt (fr ! i) (Fin 13)
      then jadd (alphaSum s) (jmul (mg ! i) (mg ! i)) else alphaSum s)"
  "alphaCount (band_step fr mg s i) =
     (if jge (fr ! i) (Fin 8) \<and> jlt (fr ! i) (Fin 13) then alphaCount s + 1 else alphaCount s)"
  by (cases "fr ! i"; simp add: band_step_def Let_def lit_values jge_def)+

lemma band_step_beta:
  "betaSum (band_step fr mg s i) =
     (if jge (fr ! i) (Fin 13) \<and> jlt (fr ! i) (Fin 30)
      then jadd (betaSum s) (jmul (mg ! i) (mg ! i)) else betaSum s)"
  "betaCount (band_step fr mg s i) =
     (if jge (fr ! i) (Fin 13) \<and> jlt (fr ! i) (Fin 30) then betaCount s + 1 else betaCount s)"
  by (cases "fr ! i"; simp add: band_step_def Let_def lit_values jge_def)+

lemma band_step_gamma:
  "gammaSum (band_step fr mg s i) =
     (if jge (fr ! i) (Fin 30) \<and> jle (fr ! i) (Fin 45)
      then jadd (gammaSum s) (jmul (mg ! i) (mg ! i)) else gammaSum s)"
  "gammaCount (band_step fr mg s i) =
     (if jge (fr ! i) (Fin 30) \<and> jle (fr ! i) (Fin 45) then gammaCount s + 1 else gammaCount s)"
  by (cases "fr ! i"; simp add: band_step_def Let_def lit_values jge_def)+

lemma band_power_eq_spec:
  assumes "sum_f (band_sums fr mg (length fr))
             = foldl jadd (Fin 0) (map (\<lambda>i. jmul (mg ! i) (mg ! i))
                 (filter (\<lambda>i. P (fr ! i)) [0..<length fr]))
           \<and> cnt_f (band_sums fr mg (length fr)) = length (filter (\<lambda>i. P (fr ! i)) [0..<length fr])"
  shows "(if 0 < cnt_f (band_sums fr mg (length fr))
          then jdiv (sum_f (band_sums fr mg (length fr)))
                 (num_of_nat (cnt_f (band_sums fr mg (length fr))))
          else Fin 0) = spec_band_power P fr mg"
  using assms by (simp add: spec_band_power_def Let_def)

lemma calculateBandPowers_eq_spec:
  "calculateBandPowers signal rate =
     \<lparr>delta = spec_band_power (\<lambda>f. jge f (lit 0.5) \<and> jlt f (Fin 4))
                (fst (computeFFT signal rate)) (snd (computeFFT signal rate)),
      theta = spec_band_power (\<lambda>f. jge f (Fin 4) \<and> jlt f (Fin 8))
                (fst (computeFFT signal rate)) (snd (computeFFT signal rate)),
      alpha = spec_band_power (\<lambda>f. jge f (Fin 8) \<and> jlt f (Fin 13))
                (fst (computeFFT signal rate)) (snd (computeFFT signal rate)),
      beta = spec_band_power (\<lambda>f. jge f (Fin 13) \<and> jlt f (Fin 30))
                (fst (computeFFT signal rate)) (snd (computeFFT signal rate)),
      gamma = spec_band_power (\<lambda>f. jge f (Fin 30) \<and> jle f (Fin 45))
                (fst (computeFFT signal rate)) (snd (computeFFT signal rate))\<rparr>"
proof -
  obtain fr mg where fm: "computeFFT signal rate = (fr, mg)"
    by (cases "computeFFT signal rate") auto
  have d0: "deltaSum (band_sums fr mg (length fr))
             = foldl jadd (Fin 0) (map (\<lambda>i. jmul (mg ! i) (mg ! i))
                 (filter (\<lambda>i. jge (fr ! i) (lit 0.5) \<and> jlt (fr ! i) (Fin 4)) [0..<length fr]))
           \<and> deltaCount (band_sums fr mg (length fr))
             = length (filter (\<lambda>i. jge (fr ! i) (lit 0.5) \<and> jlt (fr ! i) (Fin 4)) [0..<length fr])"
    unfolding band_sums_def
    by (rule band_accumulate[where sum_f = deltaSum and cnt_f = deltaCount
          and P = "\<lambda>i. jge (fr ! i) (lit 0.5) \<and> jlt (fr ! i) (Fin 4)"
          and pw = "\<lambda>i. jmul (mg ! i) (mg ! i)"])
       (simp_all add: band_step_delta)
  have d: "(if 0 < deltaCount (band_sums fr mg (length fr))
          then jdiv (deltaSum (band_sums fr mg (length fr)))
                 (num_of_nat (deltaCount (band_sums fr mg (length fr))))
          else Fin 0) = spec_band_power (\<lambda>f. jge f (lit 0.5) \<and> jlt f (Fin 4)) fr mg"
    using d0
    by (rule band_power_eq_spec[where sum_f = deltaSum and cnt_f = deltaCount
          and P = "\<lambda>f. jge f (lit 0.5) \<and> jlt f (Fin 4)"])
  have t0: "thetaSum (band_sums fr mg (length fr))
             = foldl jadd (Fin 0) (map (\<lambda>i. jmul (mg ! i) (mg ! i))
                 (filter (\<lambda>i. jge (fr ! i) (Fin 4) \<and> jlt (fr ! i) (Fin 8)) [0..<length fr]))
           \<and> thetaCount (band_sums fr mg (length fr))
             = length (filter (\<lambda>i. jge (fr ! i) (Fin 4) \<and> jlt (fr ! i) (Fin 8)) [0..<length fr])"
    unfolding band_sums_def
    by (rule band_accumulate[where sum_f = thetaSum and cnt_f = thetaCount
          and P = "\<lambda>i. jge (fr ! i) (Fin 4) \<and> jlt (fr ! i) (Fin 8)"
          and pw = "\<lambda>i. jmul (mg ! i) (mg ! i)"])
       (simp_all add: band_step_theta)
  have t: "(if 0 < thetaCount (band_sums fr mg (length fr))
          then jdiv (thetaSum (band_sums fr mg (length fr)))
                 (num_of_nat (thetaCount (band_sums fr mg (length fr))))
          else Fin 0) = spec_band_power (\<lambda>f. jge f (Fin 4) \<and> jlt f (Fin 8)) fr mg"
    using t0
    by (rule band_power_eq_spec[where sum_f = thetaSum and cnt_f = thetaCount
          and P = "\<lambda>f. jge f (Fin 4) \<and> jlt f (Fin 8)"])
  have a0: "alphaSum (band_sums fr mg (length fr))
             = foldl jadd (Fin 0) (map (\<lambda>i. jmul (mg ! i) (mg ! i))
                 (filter (\<lambda>i. jge (fr ! i) (Fin 8) \<and> jlt (fr ! i) (Fin 13)) [0..<length fr]))
           \<and> alphaCount (band_sums fr mg (length fr))
             = length (filter (\<lambda>i. jge (fr ! i) (Fin 8) \<and> jlt (fr ! i) (Fin 13)) [0..<length fr])"
    unfolding band_sums_def
    by (rule band_accumulate[where sum_f = alphaSum and cnt_f = alphaCount
          and P = "\<lambda>i. jge (fr ! i) (Fin 8) \<and> jlt (fr ! i) (Fin 13)"
          and pw = "\<lambda>i. jmul (mg ! i) (mg ! i)"])
       (simp_all add: band_step_alpha)
  have a: "(if 0 < alphaCount (band_sums fr mg (length fr))
          then jdiv (alphaSum (band_sums fr mg (length fr)))
                 (num_of_nat (alphaCount (band_sums fr mg (length fr))))
          else Fin 0) = spec_band_power (\<lambda>f. jge f (Fin 8) \<and> jlt f (Fin 13)) fr mg"
    using a0
    by (rule band_power_eq_spec[where sum_f = alphaSum and cnt_f = alphaCount
          and P = "\<lambda>f. jge f (Fin 8) \<and> jlt f (Fin 13)"])
  have b0: "betaSum (band_sums fr mg (length fr))
             = foldl jadd (Fin 0) (map (\<lambda>i. jmul (mg ! i) (mg ! i))
                 (filter (\<lambda>i. jge (fr ! i) (Fin 13) \<and> jlt (fr ! i) (Fin 30)) [0..<length fr]))
           \<and> betaCount (band_sums fr mg (length fr))
             = length (filter (\<lambda>i. jge (fr ! i) (Fin 13) \<and> jlt (fr ! i) (Fin 30)) [0..<length fr])"
    unfolding band_sums_def
    by (rule band_accumulate[where sum_f = betaSum and cnt_f = betaCount
          and P = "\<lambda>i. jge (fr ! i) (Fin 13) \<and> jlt (fr ! i) (Fin 30)"
          and pw = "\<lambda>i. jmul (mg ! i) (mg ! i)"])
       (simp_all add: band_step_beta)
  have b: "(if 0 < betaCount (band_sums fr mg (length fr))
          then jdiv (betaSum (band_sums fr mg (length fr)))
                 (num_of_nat (betaCount (band_sums fr mg (length fr))))
          else Fin 0) = spec_band_power (\<lambda>f. jge f (Fin 13) \<and> jlt f (Fin 30)) fr mg"
    using b0
    by (rule band_power_eq_spec[where sum_f = betaSum and cnt_f = betaCount
          and P = "\<lambda>f. jge f (Fin 13) \<and> jlt f (Fin 30)"])
  have g0: "gammaSum (band_sums fr mg (length fr))
             = foldl jadd (Fin 0) (map (\<lambda>i. jmul (mg ! i) (mg ! i))
                 (filter (\<lambda>i. jge (fr ! i) (Fin 30) \<and> jle (fr ! i) (Fin 45)) [0..<length fr]))
           \<and> gammaCount (band_sums fr mg (length fr))
             = length (filter (\<lambda>i. jge (fr ! i) (Fin 30) \<and> jle (fr ! i) (Fin 45)) [0..<length fr])"
    unfolding band_sums_def
    by (rule band_accumulate[where sum_f = gammaSum and cnt_f = gammaCount
          and P = "\<lambda>i. jge (fr ! i) (Fin 30) \<and> jle (fr ! i) (Fin 45)"
          and pw = "\<lambda>i. jmul (mg ! i) (mg ! i)"])
       (simp_all add: band_step_gamma)
  have g: "(if 0 < gammaCount (band_sums fr mg (length fr))
          then jdiv (gammaSum (band_sums fr mg (length fr)))
                 (num_of_nat (gammaCount (band_sums fr mg (length fr))))
          else Fin 0) = spec_band_power (\<lambda>f. jge f (Fin 30) \<and> jle f (Fin 45)) fr mg"
    using g0
    by (rule band_power_eq_spec[where sum_f = gammaSum and cnt_f = gammaCount
          and P = "\<lambda>f. jge f (Fin 30) \<and> jle f (Fin 45)"])
  show ?thesis
    unfolding calculateBandPowers_def fm Let_def prod.case fst_conv snd_conv d t a b g ..
qed

lemma round_num_minus: "round_num (- x) = jneg (round_num x)"
  by (auto simp: round_num_def Let_def fl_minus)

lemma jadd_jneg: "jadd (jneg a) (jneg b) = jneg (jadd a b)"
  by (cases a; cases b) (simp_all add: round_num_minus[symmetric])

lemma jsub_jneg: "jsub (jneg a) b = jneg (jadd a b)"
  by (simp add: jsub_def jadd_jneg)

lemma dft_fold:
  "foldl (\<lambda>(re, im) t. let angle = A t
                        in (jadd re (jmul (x ! t) (jcos angle)), jsub im (jmul (x ! t) (jsin angle))))
     (re0, jneg s0) ts
   = (foldl jadd re0 (map (\<lambda>t. jmul (x ! t) (jcos (A t))) ts),
      jneg (foldl jadd s0 (map (\<lambda>t. jmul (x ! t) (jsin (A t))) ts)))"
  by (induction ts arbitrary: re0 s0) (simp_all add: Let_def jsub_jneg)

lemma dft_sums_eq_spec: "dft_sums signal k = spec_dft signal k"
proof -
  have "(Fin 0, Fin 0) = (Fin 0, jneg (Fin 0))" by simp
  then show ?thesis
    unfolding dft_sums_def spec_dft_def spec_sum_def spec_angle_def
    by (simp only: dft_fold)
qed

lemma dft_magnitude_eq_spec: "dft_magnitude signal k = spec_magnitude signal k"
  by (simp add: dft_magnitude_def spec_magnitude_def dft_sums_eq_spec)

lemma computeFFT_eq_spec:
  "computeFFT signal rate = (spec_frequencies signal rate, spec_magnitudes signal)"
  by (simp add: computeFFT_def Let_def spec_frequencies_def spec_magnitudes_def
      dft_magnitude_eq_spec)

text \<open>
  Claim C6.  \<^verbatim>\<open>computeFFT\<close> returns the spectrum of the specification: for the bins
  \<open>k < \<lfloor>n / 2\<rfloor>\<close>, the frequency \<open>k * rate / n\<close> and the modulus, divided by \<open>n\<close>, of the
  discrete Fourier transform (real part the sum of \<open>x\<^sub>t * cos (2 * pi * k * t / n)\<close>,
  imaginary part the negated sum of \<open>x\<^sub>t * sin (2 * pi * k * t / n)\<close>).  Each of the five
  band powers of \<^verbatim>\<open>calculateBandPowers\<close> is the mean of the squared magnitudes of the bins
  whose frequency lies in \<open>[0.5, 4)\<close>, \<open>[4, 8)\<close>, \<open>[8, 13)\<close>, \<open>[13, 30)\<close> and \<open>[30, 45]\<close>,
  and 0 for a band with no bin.
\<close>

theorem calculateBandPowers_mean_of_squares:
  "computeFFT signal rate = (spec_frequencies signal rate, spec_magnitudes signal)
   \<and> calculateBandPowers signal rate =
     \<lparr>delta = spec_band_power (\<lambda>f. jge f (lit 0.5) \<and> jlt f (Fin 4))
                (spec_frequencies signal rate) (spec_magnitudes signal),
      theta = spec_band_power (\<lambda>f. jge f (Fin 4) \<and> jlt f (Fin 8))
                (spec_frequencies signal rate) (spec_magnitudes signal),
      alpha = spec_band_power (\<lambda>f. jge f (Fin 8) \<and> jlt f (Fin 13))
                (spec_frequencies signal rate) (spec_magnitudes signal),
      beta = spec_band_power (\<lambda>f. jge f (Fin 13) \<and> jlt f (Fin 30))
                (spec_frequencies signal rate) (spec_magnitudes signal),
      gamma = spec_band_power (\<lambda>f. jge f (Fin 30) \<and> jle f (Fin 45))
                (spec_frequencies signal rate) (spec_magnitudes signal)\<rparr>"
  using calculateBandPowers_eq_spec[of signal rate] by (simp add: computeFFT_eq_spec)

section \<open>Accuracy of the transform\<close>

lemma round_num_close:
  assumes "\<bar>x\<bar> \<le> 2 ^ k" "k < 1024"
  shows "\<exists>y. round_num x = Fin y \<and> \<bar>y - x\<bar> \<le> (2 ^ k + 1) / 2 ^ 53 \<and> \<bar>y\<bar> \<le> 2 ^ k"
proof -
  have "round_num x = Fin (fl x)" using assms by (rule round_num_bounded(1))
  moreover have "\<bar>fl x - x\<bar> \<le> (2 ^ k + 1) / 2 ^ 53"
    using assms(1) by (rule fl_error_bound)
  moreover have "\<bar>fl x\<bar> \<le> 2 ^ k" using assms by (rule round_num_bounded(2))
  ultimately show ?thesis by simp
qed

lemma cos_lipschitz: "\<bar>cos a - cos b\<bar> \<le> \<bar>a - (b::real)\<bar>"
proof -
  have "\<bar>cos a - cos b\<bar> = 2 * \<bar>sin ((a + b) / 2)\<bar> * \<bar>sin ((b - a) / 2)\<bar>"
    unfolding cos_diff_cos by (simp add: abs_mult)
  also have "\<dots> \<le> 2 * 1 * \<bar>(b - a) / 2\<bar>"
    by (intro mult_mono abs_sin_x_le_abs_x) simp_all
  also have "\<dots> = \<bar>a - b\<bar>" by simp
  finally show ?thesis .
qed

lemma sin_lipschitz: "\<bar>sin a - sin b\<bar> \<le> \<bar>a - (b::real)\<bar>"
proof -
  have "\<bar>sin a - sin b\<bar> = 2 * \<bar>sin ((a - b) / 2)\<bar> * \<bar>cos ((a + b) / 2)\<bar>"
    unfolding sin_diff_sin by (simp add: abs_mult)
  also have "\<dots> \<le> 2 * \<bar>(a - b) / 2\<bar> * 1"
    by (intro mult_mono abs_sin_x_le_abs_x) simp_all
  also have "\<dots> = \<bar>a - b\<bar>" by simp
  finally show ?thesis .
qed

lemma angle_combine:
  fixes e0 :: real
  assumes "\<bar>e0\<bar> \<le> (2 ^ 27 + 1) / 2 ^ 53" "\<bar>T3\<bar> \<le> (2 ^ 27 + 1) / 2 ^ 53"
    "\<bar>T2\<bar> \<le> (2 ^ 15 + 1) / 2 ^ 53" "\<bar>T1\<bar> \<le> 19 / 2 ^ 53 * 4096"
  shows "\<bar>e0 + T3 + T2 + T1\<bar> \<le> 1 / 2 ^ 24"
proof (rule abs_leI)
  note 1 = abs_le_D1[OF assms(1)] abs_le_D2[OF assms(1)]
  note 2 = abs_le_D1[OF assms(2)] abs_le_D2[OF assms(2)]
  note 3 = abs_le_D1[OF assms(3)] abs_le_D2[OF assms(3)]
  note 4 = abs_le_D1[OF assms(4)] abs_le_D2[OF assms(4)]
  show "e0 + T3 + T2 + T1 \<le> 1 / 2 ^ 24" using 1 2 3 4 by simp
  show "- (e0 + T3 + T2 + T1) \<le> 1 / 2 ^ 24" using 1 2 3 4 by simp
qed

lemma pi_error_combine:
  fixes a1 p :: real
  assumes "\<bar>a1 - 2 * p\<bar> \<le> (2 ^ 3 + 1) / 2 ^ 53" "\<bar>p - pi\<bar> \<le> 5 / 2 ^ 53"
  shows "\<bar>a1 - 2 * pi\<bar> \<le> 19 / 2 ^ 53"
proof (rule abs_leI)
  note 1 = abs_le_D1[OF assms(1)] abs_le_D2[OF assms(1)]
  note 2 = abs_le_D1[OF assms(2)] abs_le_D2[OF assms(2)]
  show "a1 - 2 * pi \<le> 19 / 2 ^ 53" using 1 2 by simp
  show "- (a1 - 2 * pi) \<le> 19 / 2 ^ 53" using 1 2 by simp
qed

lemma angle_accuracy:
  assumes "k < n" "t < n" "n \<le> 4096"
  shows "\<exists>a. spec_angle n k t = Fin a \<and> \<bar>a - 2 * pi * real k * real t / real n\<bar> \<le> 1 / 2 ^ 24"
proof -
  have n0: "0 < real n" "1 \<le> real n" using assms(1) by simp_all
  have kb: "\<bar>real k\<bar> \<le> 2 ^ 12" "real k \<le> 4096" using assms(1,3) by simp_all
  have tb: "\<bar>real t\<bar> \<le> 2 ^ 12" using assms(2,3) by simp
  define rho where "rho = real t / real n"
  have rho: "0 \<le> rho" "rho \<le> 1" using assms(2) n0 by (simp_all add: rho_def)
  obtain p where p: "js_PI = Fin p" "\<bar>p - pi\<bar> \<le> 5 / 2 ^ 53" and p4: "\<bar>p\<bar> \<le> 4"
    using js_PI_near by blast
  have "\<bar>2 * p\<bar> \<le> 2 ^ 3" using p4 by (simp add: abs_mult)
  from round_num_close[OF this] obtain a1
    where a1: "round_num (2 * p) = Fin a1" "\<bar>a1 - 2 * p\<bar> \<le> (2 ^ 3 + 1) / 2 ^ 53" "\<bar>a1\<bar> \<le> 2 ^ 3"
    by auto
  have "\<bar>a1 * real k\<bar> \<le> 2 ^ 3 * 2 ^ 12"
    unfolding abs_mult by (rule mult_mono[OF a1(3) kb(1)]) simp_all
  then have "\<bar>a1 * real k\<bar> \<le> 2 ^ 15" by simp
  from round_num_close[OF this] obtain a2
    where a2: "round_num (a1 * real k) = Fin a2" "\<bar>a2 - a1 * real k\<bar> \<le> (2 ^ 15 + 1) / 2 ^ 53"
      "\<bar>a2\<bar> \<le> 2 ^ 15"
    by auto
  have "\<bar>a2 * real t\<bar> \<le> 2 ^ 15 * 2 ^ 12"
    unfolding abs_mult by (rule mult_mono[OF a2(3) tb]) simp_all
  then have "\<bar>a2 * real t\<bar> \<le> 2 ^ 27" by simp
  from round_num_close[OF this] obtain a3
    where a3: "round_num (a2 * real t) = Fin a3" "\<bar>a3 - a2 * real t\<bar> \<le> (2 ^ 27 + 1) / 2 ^ 53"
      "\<bar>a3\<bar> \<le> 2 ^ 27"
    by auto
  have div_le: "\<bar>x / real n\<bar> \<le> \<bar>x\<bar>" for x
  proof -
    have "\<bar>x\<bar> / real n \<le> \<bar>x\<bar> / 1" using n0 by (intro divide_left_mono) simp_all
    then show ?thesis using n0 by simp
  qed
  have "\<bar>a3 / real n\<bar> \<le> 2 ^ 27" using div_le[of a3] a3(3) by (rule order_trans)
  from round_num_close[OF this] obtain a
    where a: "round_num (a3 / real n) = Fin a" "\<bar>a - a3 / real n\<bar> \<le> (2 ^ 27 + 1) / 2 ^ 53"
    by auto
  have val: "spec_angle n k t = Fin a"
    unfolding spec_angle_def p(1) num_of_nat_def using n0 by (simp add: a1(1) a2(1) a3(1) a(1))
  define T3 where "T3 = (a3 - a2 * real t) / real n"
  define T2 where "T2 = (a2 - a1 * real k) * rho"
  define T1 where "T1 = (a1 - 2 * pi) * (real k * rho)"
  have b3: "\<bar>T3\<bar> \<le> (2 ^ 27 + 1) / 2 ^ 53"
    unfolding T3_def using div_le a3(2) by (rule order_trans)
  have "\<bar>T2\<bar> = \<bar>a2 - a1 * real k\<bar> * rho"
    unfolding T2_def abs_mult abs_of_nonneg[OF rho(1)] ..
  also have "\<dots> \<le> ((2 ^ 15 + 1) / 2 ^ 53) * 1"
    by (rule mult_mono[OF a2(2) rho(2)]) (simp_all add: rho(1))
  finally have b2: "\<bar>T2\<bar> \<le> (2 ^ 15 + 1) / 2 ^ 53" by simp
  have kr: "real k * rho \<le> 4096 * 1"
    by (rule mult_mono[OF kb(2) rho(2)]) (simp_all add: rho(1))
  have kr0: "0 \<le> real k * rho" using rho(1) by simp
  have "\<bar>T1\<bar> = \<bar>a1 - 2 * pi\<bar> * (real k * rho)"
    unfolding T1_def abs_mult[of "a1 - 2 * pi"] abs_of_nonneg[OF kr0] ..
  also have "\<dots> \<le> (19 / 2 ^ 53) * (4096 * 1)"
    by (rule mult_mono[OF pi_error_combine[OF a1(2) p(2)] kr]) (simp_all add: kr0)
  finally have b1: "\<bar>T1\<bar> \<le> 19 / 2 ^ 53 * 4096" by simp
  have id: "a - 2 * pi * real k * real t / real n = (a - a3 / real n) + T3 + T2 + T1"
    using n0 by (simp add: T3_def T2_def T1_def rho_def field_simps)
  have "\<bar>a - 2 * pi * real k * real t / real n\<bar> \<le> 1 / 2 ^ 24"
    unfolding id using a(2) b3 b2 b1 by (rule angle_combine)
  with val show ?thesis by blast
qed

lemma term_combine:
  fixes y x c ca ct :: real
  assumes "\<bar>y - x * c\<bar> \<le> (2 ^ 2 + 1) / 2 ^ 53" "\<bar>x * (c - ca)\<bar> \<le> 4 * ((2 ^ 0 + 1) / 2 ^ 53)"
    "\<bar>x * (ca - ct)\<bar> \<le> 4 * (1 / 2 ^ 24)"
  shows "\<bar>y - x * ct\<bar> \<le> 1 / 2 ^ 21"
proof -
  have id: "y - x * ct = (y - x * c) + x * (c - ca) + x * (ca - ct)" by (simp add: algebra_simps)
  show ?thesis unfolding id
  proof (rule abs_leI)
    note 1 = abs_le_D1[OF assms(1)] abs_le_D2[OF assms(1)]
    note 2 = abs_le_D1[OF assms(2)] abs_le_D2[OF assms(2)]
    note 3 = abs_le_D1[OF assms(3)] abs_le_D2[OF assms(3)]
    show "(y - x * c) + x * (c - ca) + x * (ca - ct) \<le> 1 / 2 ^ 21" using 1 2 3 by simp
    show "- ((y - x * c) + x * (c - ca) + x * (ca - ct)) \<le> 1 / 2 ^ 21" using 1 2 3 by simp
  qed
qed

lemma term_accuracy:
  assumes "\<bar>x\<bar> \<le> 4" "\<bar>va - vt\<bar> \<le> 1 / 2 ^ 24" "\<bar>va\<bar> \<le> 1"
  shows "\<exists>y. jmul (Fin x) (round_num va) = Fin y \<and> \<bar>y - x * vt\<bar> \<le> 1 / 2 ^ 21"
proof -
  have "\<bar>va\<bar> \<le> 2 ^ 0" using assms(3) by simp
  from round_num_close[OF this] obtain c
    where c: "round_num va = Fin c" "\<bar>c - va\<bar> \<le> (2 ^ 0 + 1) / 2 ^ 53" "\<bar>c\<bar> \<le> 2 ^ 0"
    by auto
  have "\<bar>x * c\<bar> \<le> 4 * 2 ^ 0" unfolding abs_mult by (rule mult_mono[OF assms(1) c(3)]) simp_all
  then have "\<bar>x * c\<bar> \<le> 2 ^ 2" by simp
  from round_num_close[OF this] obtain y
    where y: "round_num (x * c) = Fin y" "\<bar>y - x * c\<bar> \<le> (2 ^ 2 + 1) / 2 ^ 53"
    by auto
  have 2: "\<bar>x * (c - va)\<bar> \<le> 4 * ((2 ^ 0 + 1) / 2 ^ 53)"
    unfolding abs_mult by (rule mult_mono[OF assms(1) c(2)]) simp_all
  have 3: "\<bar>x * (va - vt)\<bar> \<le> 4 * (1 / 2 ^ 24)"
    unfolding abs_mult by (rule mult_mono[OF assms(1) assms(2)]) simp_all
  have "\<bar>y - x * vt\<bar> \<le> 1 / 2 ^ 21" using y(2) 2 3 by (rule term_combine)
  moreover have "jmul (Fin x) (round_num va) = Fin y" by (simp add: c(1) y(1))
  ultimately show ?thesis by blast
qed

lemma sum_step_combine:
  fixes s' s y z S :: real
  assumes "\<bar>s' - (s + y)\<bar> \<le> (2 ^ 15 + 1) / 2 ^ 53" "\<bar>s - S\<bar> \<le> real m / 2 ^ 20"
    "\<bar>y - z\<bar> \<le> 1 / 2 ^ 21"
  shows "\<bar>s' - (S + z)\<bar> \<le> real (Suc m) / 2 ^ 20"
proof (rule abs_leI)
  note 1 = abs_le_D1[OF assms(1)] abs_le_D2[OF assms(1)]
  note 2 = abs_le_D1[OF assms(2)] abs_le_D2[OF assms(2)]
  note 3 = abs_le_D1[OF assms(3)] abs_le_D2[OF assms(3)]
  show "s' - (S + z) \<le> real (Suc m) / 2 ^ 20" using 1 2 3 by (simp add: field_simps)
  show "- (s' - (S + z)) \<le> real (Suc m) / 2 ^ 20" using 1 2 3 by (simp add: field_simps)
qed

lemma sum_bound_combine:
  fixes s y z S :: real
  assumes "\<bar>s - S\<bar> \<le> real m / 2 ^ 20" "\<bar>S\<bar> \<le> 4 * real m" "\<bar>y - z\<bar> \<le> 1 / 2 ^ 21" "\<bar>z\<bar> \<le> 4"
    "real m \<le> 4095"
  shows "\<bar>s + y\<bar> \<le> 2 ^ 15"
proof (rule abs_leI)
  note 1 = abs_le_D1[OF assms(1)] abs_le_D2[OF assms(1)]
  note 2 = abs_le_D1[OF assms(2)] abs_le_D2[OF assms(2)]
  note 3 = abs_le_D1[OF assms(3)] abs_le_D2[OF assms(3)]
  note 4 = abs_le_D1[OF assms(4)] abs_le_D2[OF assms(4)]
  show "s + y \<le> 2 ^ 15" using 1 2 3 4 assms(5) by (simp add: field_simps)
  show "- (s + y) \<le> 2 ^ 15" using 1 2 3 4 assms(5) by (simp add: field_simps)
qed

lemma spec_sum_Suc: "spec_sum f (Suc m) = jadd (spec_sum f m) (f m)"
  by (simp add: spec_sum_def)

lemma sum_accuracy:
  assumes "\<And>t. t < n \<Longrightarrow> \<exists>y. f t = Fin y \<and> \<bar>y - z t\<bar> \<le> 1 / 2 ^ 21"
    and "\<And>t. t < n \<Longrightarrow> \<bar>z t\<bar> \<le> 4" and "n \<le> 4096" and "m \<le> n"
  shows "\<exists>s. spec_sum f m = Fin s \<and> \<bar>s - (\<Sum>t<m. z t)\<bar> \<le> real m / 2 ^ 20"
  using assms(4)
proof (induction m)
  case 0
  show ?case by (simp add: spec_sum_def)
next
  case (Suc m)
  then have m: "m < n" "m \<le> n" by simp_all
  from Suc.IH[OF m(2)] obtain s where
    s: "spec_sum f m = Fin s" "\<bar>s - (\<Sum>t<m. z t)\<bar> \<le> real m / 2 ^ 20"
    by blast
  from assms(1)[OF m(1)] obtain y where y: "f m = Fin y" "\<bar>y - z m\<bar> \<le> 1 / 2 ^ 21" by blast
  have "\<bar>\<Sum>t<m. z t\<bar> \<le> (\<Sum>t<m. \<bar>z t\<bar>)" by (rule sum_abs)
  also have "\<dots> \<le> (\<Sum>t<m. 4)" using assms(2) m(1) by (intro sum_mono) simp
  finally have S: "\<bar>\<Sum>t<m. z t\<bar> \<le> 4 * real m" by simp
  have mb: "real m \<le> 4095" using m(1) assms(3) by simp
  have "\<bar>s + y\<bar> \<le> 2 ^ 15"
    using s(2) S y(2) assms(2)[OF m(1)] mb by (rule sum_bound_combine)
  from round_num_close[OF this] obtain s'
    where s': "round_num (s + y) = Fin s'" "\<bar>s' - (s + y)\<bar> \<le> (2 ^ 15 + 1) / 2 ^ 53"
    by auto
  have "\<bar>s' - ((\<Sum>t<m. z t) + z m)\<bar> \<le> real (Suc m) / 2 ^ 20"
    using s'(2) s(2) y(2) by (rule sum_step_combine)
  moreover have "spec_sum f (Suc m) = Fin s'" by (simp add: spec_sum_Suc s(1) y(1) s'(1))
  ultimately show ?case by auto
qed

lemma Re_dft: "Re (dft x k) = (\<Sum>t<length x. x ! t * cos (2 * pi * real k * real t / real (length x)))"
  by (simp add: dft_def)

lemma Im_dft: "Im (dft x k) = - (\<Sum>t<length x. x ! t * sin (2 * pi * real k * real t / real (length x)))"
  by (simp add: dft_def sum_negf)

lemma dft_terms:
  assumes "t < length rs" "\<bar>rs ! t\<bar> \<le> 4" "length rs \<le> 4096" "k < length rs"
  shows "\<exists>y. jmul (map Fin rs ! t) (jcos (spec_angle (length (map Fin rs)) k t)) = Fin y
           \<and> \<bar>y - rs ! t * cos (2 * pi * real k * real t / real (length rs))\<bar> \<le> 1 / 2 ^ 21"
    and "\<exists>y. jmul (map Fin rs ! t) (jsin (spec_angle (length (map Fin rs)) k t)) = Fin y
           \<and> \<bar>y - rs ! t * sin (2 * pi * real k * real t / real (length rs))\<bar> \<le> 1 / 2 ^ 21"
proof -
  from angle_accuracy[OF assms(4,1,3)] obtain a where
    a: "spec_angle (length rs) k t = Fin a"
       "\<bar>a - 2 * pi * real k * real t / real (length rs)\<bar> \<le> 1 / 2 ^ 24"
    by blast
  have c: "\<bar>cos a - cos (2 * pi * real k * real t / real (length rs))\<bar> \<le> 1 / 2 ^ 24"
    using cos_lipschitz a(2) by (rule order_trans)
  have s: "\<bar>sin a - sin (2 * pi * real k * real t / real (length rs))\<bar> \<le> 1 / 2 ^ 24"
    using sin_lipschitz a(2) by (rule order_trans)
  from term_accuracy[OF assms(2) c] show
    "\<exists>y. jmul (map Fin rs ! t) (jcos (spec_angle (length (map Fin rs)) k t)) = Fin y
           \<and> \<bar>y - rs ! t * cos (2 * pi * real k * real t / real (length rs))\<bar> \<le> 1 / 2 ^ 21"
    using assms(1) by (simp add: a(1))
  from term_accuracy[OF assms(2) s] show
    "\<exists>y. jmul (map Fin rs ! t) (jsin (spec_angle (length (map Fin rs)) k t)) = Fin y
           \<and> \<bar>y - rs ! t * sin (2 * pi * real k * real t / real (length rs))\<bar> \<le> 1 / 2 ^ 21"
    using assms(1) by (simp add: a(1))
qed

lemma sample_bound:
  fixes x c :: real
  assumes "\<bar>x\<bar> \<le> 4" "\<bar>c\<bar> \<le> 1"
  shows "\<bar>x * c\<bar> \<le> 4"
proof -
  have "\<bar>x\<bar> * \<bar>c\<bar> \<le> 4 * 1" by (rule mult_mono[OF assms]) simp_all
  then show ?thesis by (simp add: abs_mult)
qed

lemma spec_dft_accuracy:
  assumes "\<And>t. t < length rs \<Longrightarrow> \<bar>rs ! t\<bar> \<le> 4" and "length rs \<le> 4096" and "k < length rs"
  shows "\<exists>re im. spec_dft (map Fin rs) k = (Fin re, Fin im)
           \<and> \<bar>re - Re (dft rs k)\<bar> \<le> 1 / 2 ^ 8 \<and> \<bar>im - Im (dft rs k)\<bar> \<le> 1 / 2 ^ 8"
proof -
  define n where "n = length rs"
  define zc where "zc t = rs ! t * cos (2 * pi * real k * real t / real n)" for t
  define zs where "zs t = rs ! t * sin (2 * pi * real k * real t / real n)" for t
  define fc where "fc = (\<lambda>t. jmul (map Fin rs ! t) (jcos (spec_angle (length (map Fin rs)) k t)))"
  define fs where "fs = (\<lambda>t. jmul (map Fin rs ! t) (jsin (spec_angle (length (map Fin rs)) k t)))"
  have nb: "real n / 2 ^ 20 \<le> 1 / 2 ^ 8" using assms(2) by (simp add: n_def)
  have c1: "\<exists>y. fc t = Fin y \<and> \<bar>y - zc t\<bar> \<le> 1 / 2 ^ 21" if "t < n" for t
    using dft_terms(1)[OF _ assms(1) assms(2,3), of t] that by (simp add: fc_def zc_def n_def)
  have s1: "\<exists>y. fs t = Fin y \<and> \<bar>y - zs t\<bar> \<le> 1 / 2 ^ 21" if "t < n" for t
    using dft_terms(2)[OF _ assms(1) assms(2,3), of t] that by (simp add: fs_def zs_def n_def)
  have c2: "\<bar>zc t\<bar> \<le> 4" if "t < n" for t
    unfolding zc_def using assms(1) that by (intro sample_bound) (simp_all add: n_def)
  have s2: "\<bar>zs t\<bar> \<le> 4" if "t < n" for t
    unfolding zs_def using assms(1) that by (intro sample_bound) (simp_all add: n_def)
  have n4: "n \<le> 4096" using assms(2) by (simp add: n_def)
  from sum_accuracy[of n fc zc n, OF c1 c2 n4] obtain re where
    re: "spec_sum fc n = Fin re" "\<bar>re - (\<Sum>t<n. zc t)\<bar> \<le> real n / 2 ^ 20"
    by auto
  from sum_accuracy[of n fs zs n, OF s1 s2 n4] obtain im where
    im: "spec_sum fs n = Fin im" "\<bar>im - (\<Sum>t<n. zs t)\<bar> \<le> real n / 2 ^ 20"
    by auto
  have v: "spec_dft (map Fin rs) k = (Fin re, Fin (- im))"
    using re(1) im(1) unfolding spec_dft_def fc_def fs_def n_def by simp
  have r: "\<bar>re - Re (dft rs k)\<bar> \<le> 1 / 2 ^ 8"
    using re(2) nb unfolding Re_dft zc_def n_def by (rule order_trans)
  have "\<bar>- im - Im (dft rs k)\<bar> = \<bar>im - (\<Sum>t<n. zs t)\<bar>"
    unfolding Im_dft zs_def n_def by simp
  then have i: "\<bar>- im - Im (dft rs k)\<bar> \<le> 1 / 2 ^ 8" using im(2) nb by simp
  from v r i show ?thesis by blast
qed

text \<open>
  The sums of the inner loop of \<^verbatim>\<open>computeFFT\<close> against the transform without rounding.  For
  a signal of at most 4096 finite samples of absolute value at most 4 and a bin below the
  length, the two sums are finite and lie within \<open>2\<^sup>-\<^sup>8\<close> of the real and the imaginary
  part of the discrete Fourier transform.
\<close>

lemma dft_sums_accuracy:
  assumes "\<And>t. t < length rs \<Longrightarrow> \<bar>rs ! t\<bar> \<le> 4" and "length rs \<le> 4096" and "k < length rs"
  shows "\<exists>re im. dft_sums (map Fin rs) k = (Fin re, Fin im)
           \<and> \<bar>re - Re (dft rs k)\<bar> \<le> 1 / 2 ^ 8 \<and> \<bar>im - Im (dft rs k)\<bar> \<le> 1 / 2 ^ 8"
  unfolding dft_sums_eq_spec using assms by (rule spec_dft_accuracy)

section \<open>The rule-based classification on signals without band power\<close>

lemma foldl_jadd_zeros:
  assumes "\<And>x. x \<in> set xs \<Longrightarrow> x = Fin 0"
  shows "foldl jadd (Fin 0) xs = Fin 0"
  using assms
proof (induction xs)
  case Nil
  then show ?case by simp
next
  case (Cons a xs)
  have a: "a = Fin 0" by (rule Cons.prems) simp
  have "foldl jadd (Fin 0) xs = Fin 0" by (rule Cons.IH, rule Cons.prems) simp
  then show ?case by (simp add: a round_num_0)
qed

lemma spec_band_power_zero:
  assumes "length fr = m"
  shows "spec_band_power P fr (replicate m (Fin 0)) = Fin 0"
proof -
  let ?bins = "filter (\<lambda>i. P (fr ! i)) [0..<length fr]"
  have "foldl jadd (Fin 0)
          (map (\<lambda>i. jmul (replicate m (Fin 0) ! i) (replicate m (Fin 0) ! i)) ?bins) = Fin 0"
    by (rule foldl_jadd_zeros) (auto simp: assms round_num_0)
  moreover have "?bins \<noteq> [] \<Longrightarrow> round_num (0 / real (length ?bins)) = Fin 0"
    by (simp add: round_num_0)
  ultimately show ?thesis
    by (simp add: spec_band_power_def Let_def num_of_nat_def round_num_0)
qed

lemma computeFFT_length: "length (fst (computeFFT signal rate)) = length signal div 2"
  by (simp add: computeFFT_def Let_def)

lemma calculateBandPowers_zero_signal:
  assumes "n < 2 ^ 32"
  shows "calculateBandPowers (replicate n (Fin 0)) rate
           = \<lparr>delta = Fin 0, theta = Fin 0, alpha = Fin 0, beta = Fin 0, gamma = Fin 0\<rparr>"
proof -
  have l: "length (fst (computeFFT (replicate n (Fin 0)) rate)) = n div 2"
    by (simp add: computeFFT_length)
  show ?thesis
    unfolding calculateBandPowers_eq_spec computeFFT_zero[OF assms] spec_band_power_zero[OF l] ..
qed

lemma ruleBasedClassification_zero_powers:
  assumes "calculateBandPowers signal rate
             = \<lparr>delta = Fin 0, theta = Fin 0, alpha = Fin 0, beta = Fin 0, gamma = Fin 0\<rparr>"
  shows "ruleBasedClassification signal rate
           = \<lparr>predicted = Neutral, confidence = NaN,
              probabilities = \<lparr>happy = NaN, neutral = NaN, sad = NaN\<rparr>\<rparr>"
  unfolding ruleBasedClassification_def assms
  by (simp add: round_num_0 jgt_def jsub_def)

text \<open>
  Claim C2 fails on the code.  The band powers of an all-zero signal are all zero, as
  claimed; their total is then zero, \<^verbatim>\<open>ruleBasedClassification\<close> divides by it without a
  test, and the three probabilities and the confidence are NaN, not \<open>1 / 3\<close>.
\<close>

theorem zero_signal_classification:
  assumes "n < 2 ^ 32"
  shows "calculateBandPowers (replicate n (Fin 0)) rate
           = \<lparr>delta = Fin 0, theta = Fin 0, alpha = Fin 0, beta = Fin 0, gamma = Fin 0\<rparr>
       \<and> predictEmotion_untrained (replicate n (Fin 0)) rate
           = \<lparr>predicted = Neutral, confidence = NaN,
              probabilities = \<lparr>happy = NaN, neutral = NaN, sad = NaN\<rparr>\<rparr>"
  using calculateBandPowers_zero_signal[OF assms]
  by (simp add: predictEmotion_untrained_def ruleBasedClassification_zero_powers)

theorem zero_signal_classification_witness:
  "(256::nat) < 2 ^ 32
   \<and> calculateBandPowers (replicate 256 (Fin 0)) (Fin 256)
           = \<lparr>delta = Fin 0, theta = Fin 0, alpha = Fin 0, beta = Fin 0, gamma = Fin 0\<rparr>
   \<and> predictEmotion_untrained (replicate 256 (Fin 0)) (Fin 256)
           = \<lparr>predicted = Neutral, confidence = NaN,
              probabilities = \<lparr>happy = NaN, neutral = NaN, sad = NaN\<rparr>\<rparr>"
proof -
  have h: "(256::nat) < 2 ^ 32" by simp
  from zero_signal_classification[OF h, of "Fin 256"] h show ?thesis by blast
qed

lemma spec_band_power_no_bins:
  assumes "\<And>i. i < length fr \<Longrightarrow> \<not> P (fr ! i)"
  shows "spec_band_power P fr mg = Fin 0"
proof -
  have "filter (\<lambda>i. P (fr ! i)) [0..<length fr] = []"
    using assms by (simp add: filter_empty_conv)
  then show ?thesis by (simp add: spec_band_power_def)
qed

lemma constant_signal_frequencies:
  "fst (computeFFT [Fin 1, Fin 1, Fin 1, Fin 1] (Fin 256)) = [Fin 0, Fin 64]"
proof -
  have "[0..<2] = [0, Suc 0]" by (simp add: upt_rec)
  then show ?thesis
    by (simp add: computeFFT_def num_of_nat_def round_num_small)
qed

lemma constant_signal_band_powers:
  "calculateBandPowers [Fin 1, Fin 1, Fin 1, Fin 1] (Fin 256)
     = \<lparr>delta = Fin 0, theta = Fin 0, alpha = Fin 0, beta = Fin 0, gamma = Fin 0\<rparr>"
proof -
  have d: "spec_band_power (\<lambda>f. jge f (lit 0.5) \<and> jlt f (Fin 4)) [Fin 0, Fin 64] mg = Fin 0" for mg
    by (rule spec_band_power_no_bins) (auto simp: less_Suc_eq lit_values jge_def)
  have t: "spec_band_power (\<lambda>f. jge f (Fin 4) \<and> jlt f (Fin 8)) [Fin 0, Fin 64] mg = Fin 0" for mg
    by (rule spec_band_power_no_bins) (auto simp: less_Suc_eq jge_def)
  have a: "spec_band_power (\<lambda>f. jge f (Fin 8) \<and> jlt f (Fin 13)) [Fin 0, Fin 64] mg = Fin 0" for mg
    by (rule spec_band_power_no_bins) (auto simp: less_Suc_eq jge_def)
  have b: "spec_band_power (\<lambda>f. jge f (Fin 13) \<and> jlt f (Fin 30)) [Fin 0, Fin 64] mg = Fin 0" for mg
    by (rule spec_band_power_no_bins) (auto simp: less_Suc_eq jge_def)
  have g: "spec_band_power (\<lambda>f. jge f (Fin 30) \<and> jle f (Fin 45)) [Fin 0, Fin 64] mg = Fin 0" for mg
    by (rule spec_band_power_no_bins) (auto simp: less_Suc_eq jge_def)
  show ?thesis
    unfolding calculateBandPowers_eq_spec constant_signal_frequencies d t a b g ..
qed

text \<open>
  Claim C7 fails on the code, by the same division.  Four equal samples at 256 Hz have
  their two bins at 0 Hz and 64 Hz, outside every band: the band powers are zero and the
  probabilities are NaN, so they are neither non-negative nor is the confidence in
  \<open>[0, 1]\<close>.
\<close>

theorem constant_signal_classification:
  "probabilities (ruleBasedClassification [Fin 1, Fin 1, Fin 1, Fin 1] (Fin 256))
     = \<lparr>happy = NaN, neutral = NaN, sad = NaN\<rparr>
   \<and> confidence (ruleBasedClassification [Fin 1, Fin 1, Fin 1, Fin 1] (Fin 256)) = NaN
   \<and> \<not> jge (happy (probabilities (ruleBasedClassification [Fin 1, Fin 1, Fin 1, Fin 1] (Fin 256))))
          (Fin 0)
   \<and> \<not> jle (confidence (ruleBasedClassification [Fin 1, Fin 1, Fin 1, Fin 1] (Fin 256))) (Fin 1)"
  by (simp add: ruleBasedClassification_zero_powers[OF constant_signal_band_powers] jge_def)

section \<open>Properties of the component analysis\<close>



























end
